theory Spec2Isabelle
  imports Main "HOL-Library.Word"
begin

section \<open>The ARP handler of dhcpcd (src/arp.c)\<close>

text \<open>
  A shallow embedding of \<^verbatim>\<open>arp.c\<close>: address conflict detection over ARP.
  The C program keeps its state in heap objects reached through pointers; the model keeps
  the same objects in an explicit store and threads the store through every function.

  \<^item> \<^verbatim>\<open>struct interface *\<close> is an index into the list \<^verbatim>\<open>ctx->ifaces\<close>.
  \<^item> \<^verbatim>\<open>struct arp_state *\<close> is an index into a heap of sessions; \<^verbatim>\<open>free\<close> empties
    the cell, and the allocator never hands an index out twice, so that a pointer kept
    across a \<^verbatim>\<open>free\<close> is recognisably dangling.
  \<^item> The \<^verbatim>\<open>TAILQ\<close> of sessions of an interface is the list of its elements' pointers, in
    queue order (\<^verbatim>\<open>sys/queue.h\<close> is not part of the source file).
  \<^item> What C leaves undefined (a read through a dangling or null pointer, a call through a
    null function pointer, a copy beyond its destination) is a value of type \<open>fault\<close>.
  \<^item> The transport (\<^verbatim>\<open>bpf_*\<close>), the allocator and the random source are outside the file:
    their answers are scripted in the state, their calls are recorded in a trace
    stamped with the event loop's clock (in nanoseconds).
  \<^item> \<^verbatim>\<open>syslog\<close> calls write nothing the program reads back and are left out.
\<close>

subsection \<open>Data\<close>

type_synonym byte = "8 word"
type_synonym ifid = nat
type_synonym ptr = nat
type_synonym in_addr = "byte list"
type_synonym fnptr = nat

text \<open>\<^verbatim>\<open>struct arp_msg\<close>; \<open>in_addr\<close> is the object representation of \<^verbatim>\<open>s_addr\<close>, four bytes.\<close>

record arp_msg =
  op :: "16 word"
  sha :: "byte list"
  sip :: in_addr
  tha :: "byte list"
  tip :: in_addr

datatype fault =
    UseAfterFree
  | NullDeref
  | BadInterface
  | DestOverflow
  | OutOfFuel

datatype errno_t = ENONE | ESRCH | ENOBUFS | ENOMEM

text \<open>
  The owning layer's callbacks are function pointers into code outside the file. A
  conflicted callback is represented by what it does to this module: the sessions it
  hands to \<^verbatim>\<open>arp_free\<close>, in order. The probed, announced and free callbacks are opaque:
  calling one is recorded, nothing else.
\<close>

datatype conflicted_fn = Conflicted_fn (frees: "ptr list")

datatype handler = H_arp_probe1 | H_arp_probed | H_arp_announce1 | H_arp_announced

datatype event =
    BpfOpen ifid int
  | BpfClose int
  | BpfArp ifid int
  | BpfSend ifid int "16 word" "byte list"
  | CbConflicted ptr arp_msg
  | CbProbed ptr
  | CbAnnounced ptr
  | CbFree ptr

text \<open>\<^verbatim>\<open>struct iarp_state\<close>: the descriptor (\<open>-1\<close> when closed) and the queue of sessions.\<close>

record iarp_state =
  fd :: int
  arp_states :: "ptr list"

record interface =
  family :: "16 word"
  hwaddr :: "byte list"
  hwlen :: nat
  if_data_arp :: "iarp_state option"

record arp_state =
  iface :: ifid
  addr :: in_addr
  probes :: int
  claims :: int
  conflicted_cb :: "conflicted_fn option"
  probed_cb :: "fnptr option"
  announced_cb :: "fnptr option"
  free_cb :: "fnptr option"

record world =
  HWADDR_LEN :: nat
  ifaces :: "interface list"
  heap :: "arp_state option list"
  timeouts :: "(nat \<times> handler \<times> ptr) list"
  events :: "int list"
  clock :: nat
  trace :: "(nat \<times> event) list"
  errno :: errno_t
  malloc_script :: "bool list"
  bpf_open_script :: "int list"
  bpf_send_script :: "int list"
  random_script :: "nat list"

subsection \<open>Store access\<close>

definition deref :: "world \<Rightarrow> ptr \<Rightarrow> arp_state option" where
  "deref w p = (if p < length (heap w) then heap w ! p else None)"

definition get_iface :: "world \<Rightarrow> ifid \<Rightarrow> interface option" where
  "get_iface w ifp = (if ifp < length (ifaces w) then Some (ifaces w ! ifp) else None)"

definition set_if_data :: "ifid \<Rightarrow> iarp_state option \<Rightarrow> world \<Rightarrow> world" where
  "set_if_data ifp st w =
     w\<lparr>ifaces := (ifaces w)[ifp := (ifaces w ! ifp)\<lparr>if_data_arp := st\<rparr>]\<rparr>"

definition store :: "ptr \<Rightarrow> arp_state \<Rightarrow> world \<Rightarrow> world" where
  "store p s w = w\<lparr>heap := (heap w)[p := Some s]\<rparr>"

definition free :: "ptr \<Rightarrow> world \<Rightarrow> world" where
  "free p w = w\<lparr>heap := (heap w)[p := None]\<rparr>"

definition emit :: "event \<Rightarrow> world \<Rightarrow> world" where
  "emit e w = w\<lparr>trace := trace w @ [(clock w, e)]\<rparr>"

text \<open>The sessions registered on an interface: the queue of its context, if it has one.\<close>

definition sessions_of :: "world \<Rightarrow> ifid \<Rightarrow> ptr list" where
  "sessions_of w ifp =
     (case get_iface w ifp of
        None \<Rightarrow> []
      | Some ifc \<Rightarrow> (case if_data_arp ifc of None \<Rightarrow> [] | Some st \<Rightarrow> arp_states st))"

subsection \<open>The collaborators\<close>

text \<open>
  Modelled from the spec: the event loop (\<^verbatim>\<open>eloop.c\<close> is not part of the source file).
  \<^verbatim>\<open>scheduleAfter(duration, handler, context)\<close> queues a timer that fires \<open>duration\<close> after
  the current time; pending timers fire in fire-time order; \<^verbatim>\<open>cancelAll(context)\<close> removes
  every timer tagged to a session; \<^verbatim>\<open>registerReadable\<close> and \<^verbatim>\<open>deregister\<close> maintain the set
  of watched descriptors.
\<close>

fun insort_timeout ::
  "nat \<times> handler \<times> ptr \<Rightarrow> (nat \<times> handler \<times> ptr) list \<Rightarrow> (nat \<times> handler \<times> ptr) list" where
  "insort_timeout t [] = [t]"
| "insort_timeout t (u # us) =
     (if fst t < fst u then t # u # us else u # insort_timeout t us)"

definition eloop_timeout_add :: "nat \<Rightarrow> handler \<Rightarrow> ptr \<Rightarrow> world \<Rightarrow> world" where
  "eloop_timeout_add ns h arg w =
     w\<lparr>timeouts := insort_timeout (clock w + ns, h, arg) (timeouts w)\<rparr>"

definition eloop_timeout_delete :: "ptr \<Rightarrow> world \<Rightarrow> world" where
  "eloop_timeout_delete arg w =
     w\<lparr>timeouts := filter (\<lambda>t. snd (snd t) \<noteq> arg) (timeouts w)\<rparr>"

definition eloop_event_add :: "int \<Rightarrow> world \<Rightarrow> world" where
  "eloop_event_add d w = w\<lparr>events := events w @ [d]\<rparr>"

definition eloop_event_delete :: "int \<Rightarrow> world \<Rightarrow> world" where
  "eloop_event_delete d w = w\<lparr>events := removeAll d (events w)\<rparr>"

text \<open>A scripted answer: the head of the script, or a default when the script has run out.\<close>

definition next_or :: "'a \<Rightarrow> 'a list \<Rightarrow> 'a" where
  "next_or d xs = (case xs of [] \<Rightarrow> d | x # _ \<Rightarrow> x)"

text \<open>
  The transport boundary: \<^verbatim>\<open>bpf_open\<close> answers with the next scripted descriptor (\<open>-1\<close>,
  failure, when the script is empty); \<^verbatim>\<open>bpf_close\<close> and \<^verbatim>\<open>bpf_arp\<close> (which installs the
  receive filter for the interface's current sessions) are recorded.
\<close>

definition bpf_open :: "ifid \<Rightarrow> world \<Rightarrow> int \<times> world" where
  "bpf_open ifp w =
     (let d = next_or (-1) (bpf_open_script w)
      in (d, emit (BpfOpen ifp d) (w\<lparr>bpf_open_script := tl (bpf_open_script w)\<rparr>)))"

definition bpf_close :: "int \<Rightarrow> world \<Rightarrow> world" where
  "bpf_close d w = emit (BpfClose d) w"

definition bpf_arp :: "ifid \<Rightarrow> int \<Rightarrow> world \<Rightarrow> world" where
  "bpf_arp ifp d w = emit (BpfArp ifp d) w"

text \<open>
  The allocator: \<^verbatim>\<open>malloc\<close> and \<^verbatim>\<open>calloc\<close> succeed or fail as scripted (an empty script
  means success). A new session gets the next unused heap index, zero-filled.
\<close>

definition malloc :: "world \<Rightarrow> bool \<times> world" where
  "malloc w =
     (let ok = next_or True (malloc_script w);
          w1 = w\<lparr>malloc_script := tl (malloc_script w)\<rparr>
      in (ok, if ok then w1 else w1\<lparr>errno := ENOMEM\<rparr>))"

definition zero_addr :: in_addr where
  "zero_addr = [0, 0, 0, 0]"

definition zero_arp_state :: arp_state where
  "zero_arp_state =
     \<lparr>iface = 0, addr = zero_addr, probes = 0, claims = 0, conflicted_cb = None,
      probed_cb = None, announced_cb = None, free_cb = None\<rparr>"

definition calloc_arp_state :: "world \<Rightarrow> ptr option \<times> world" where
  "calloc_arp_state w =
     (case malloc w of
        (False, w1) \<Rightarrow> (None, w1)
      | (True, w1) \<Rightarrow> (Some (length (heap w1)), w1\<lparr>heap := heap w1 @ [Some zero_arp_state]\<rparr>))"

subsection \<open>Finding and creating sessions\<close>

text \<open>
  \<^verbatim>\<open>arp_find\<close>: the first session of the interface's queue with this address and this
  interface; \<^verbatim>\<open>errno = ESRCH\<close> and null when there is no context or no such session.
\<close>

fun arp_find_loop :: "world \<Rightarrow> ifid \<Rightarrow> in_addr \<Rightarrow> ptr list \<Rightarrow> fault + ptr option" where
  "arp_find_loop w ifp a [] = Inr None"
| "arp_find_loop w ifp a (p # ps) =
     (case deref w p of
        None \<Rightarrow> Inl UseAfterFree
      | Some s \<Rightarrow>
          if addr s = a \<and> iface s = ifp then Inr (Some p) else arp_find_loop w ifp a ps)"

definition arp_find :: "ifid \<Rightarrow> in_addr \<Rightarrow> world \<Rightarrow> fault + (ptr option \<times> world)" where
  "arp_find ifp a w =
     (case get_iface w ifp of
        None \<Rightarrow> Inl BadInterface
      | Some ifc \<Rightarrow>
          (case if_data_arp ifc of
             None \<Rightarrow> Inr (None, w\<lparr>errno := ESRCH\<rparr>)
           | Some state \<Rightarrow>
               (case arp_find_loop w ifp a (arp_states state) of
                  Inl f \<Rightarrow> Inl f
                | Inr (Some p) \<Rightarrow> Inr (Some p, w)
                | Inr None \<Rightarrow> Inr (None, w\<lparr>errno := ESRCH\<rparr>))))"

text \<open>
  The second half of \<^verbatim>\<open>arp_new\<close>: allocate the session, set its interface and (if one is
  given) its address, append it to the queue and reinstall the receive filter.
\<close>

definition arp_new_session :: "ifid \<Rightarrow> in_addr option \<Rightarrow> world \<Rightarrow> fault + (ptr option \<times> world)" where
  "arp_new_session ifp a w =
     (case calloc_arp_state w of
        (None, w1) \<Rightarrow> Inr (None, w1)
      | (Some p, w1) \<Rightarrow>
          (case deref w1 p of
             None \<Rightarrow> Inl UseAfterFree
           | Some s0 \<Rightarrow>
               let s1 = s0\<lparr>iface := ifp\<rparr>;
                   s2 = (case a of None \<Rightarrow> s1 | Some ad \<Rightarrow> s1\<lparr>addr := ad\<rparr>);
                   w2 = store p s2 w1
               in (case get_iface w2 ifp of
                     None \<Rightarrow> Inl BadInterface
                   | Some ifc \<Rightarrow>
                       (case if_data_arp ifc of
                          None \<Rightarrow> Inl NullDeref
                        | Some state \<Rightarrow>
                            let w3 = set_if_data ifp
                                       (Some (state\<lparr>arp_states := arp_states state @ [p]\<rparr>)) w2
                            in Inr (Some p, bpf_arp ifp (fd state) w3)))))"

text \<open>
  \<^verbatim>\<open>arp_new\<close>: with no context yet, allocate one (descriptor closed, empty queue) and go on
  to allocate the session; with a context and an address, return the session
  \<^verbatim>\<open>arp_find\<close> finds, if any.
\<close>

definition arp_new :: "ifid \<Rightarrow> in_addr option \<Rightarrow> world \<Rightarrow> fault + (ptr option \<times> world)" where
  "arp_new ifp a w =
     (case get_iface w ifp of
        None \<Rightarrow> Inl BadInterface
      | Some ifc \<Rightarrow>
          (case if_data_arp ifc of
             None \<Rightarrow>
               (case malloc w of
                  (False, w1) \<Rightarrow> Inr (None, w1)
                | (True, w1) \<Rightarrow>
                    arp_new_session ifp a
                      (set_if_data ifp (Some \<lparr>fd = -1, arp_states = []\<rparr>) w1))
           | Some state \<Rightarrow>
               (case a of
                  None \<Rightarrow> arp_new_session ifp a w
                | Some ad \<Rightarrow>
                    (case arp_find ifp ad w of
                       Inl f \<Rightarrow> Inl f
                     | Inr (Some p, w1) \<Rightarrow> Inr (Some p, w1)
                     | Inr (None, w1) \<Rightarrow> arp_new_session ifp a w1))))"

text \<open>\<^verbatim>\<open>arp_cancel\<close>: cancel the session's timers and keep the session.\<close>

definition arp_cancel :: "ptr \<Rightarrow> world \<Rightarrow> fault + world" where
  "arp_cancel p w =
     (case deref w p of
        None \<Rightarrow> Inl UseAfterFree
      | Some s \<Rightarrow>
          (case get_iface w (iface s) of
             None \<Rightarrow> Inl BadInterface
           | Some ifc \<Rightarrow> Inr (eloop_timeout_delete p w)))"

subsection \<open>Closing the transport and freeing a session\<close>

text \<open>\<^verbatim>\<open>arp_close\<close>: deregister and close the descriptor if there is a context with an open one.\<close>

definition arp_close :: "ifid \<Rightarrow> world \<Rightarrow> fault + world" where
  "arp_close ifp w =
     (case get_iface w ifp of
        None \<Rightarrow> Inl BadInterface
      | Some ifc \<Rightarrow>
          (case if_data_arp ifc of
             None \<Rightarrow> Inr w
           | Some state \<Rightarrow>
               if fd state \<noteq> -1 then
                 Inr (set_if_data ifp (Some (state\<lparr>fd := -1\<rparr>))
                        (bpf_close (fd state) (eloop_event_delete (fd state) w)))
               else Inr w))"

text \<open>
  \<^verbatim>\<open>arp_free\<close>. A null session returns at once. Otherwise: cancel the session's timers,
  unlink it from its interface's queue, call \<^verbatim>\<open>free_cb\<close> if set, release the session; then,
  if the queue is empty, close the transport, release the context and clear the
  interface's slot, else reinstall the receive filter.
\<close>

definition arp_free :: "ptr option \<Rightarrow> world \<Rightarrow> fault + world" where
  "arp_free astate w =
     (case astate of
        None \<Rightarrow> Inr w
      | Some p \<Rightarrow>
          (case deref w p of
             None \<Rightarrow> Inl UseAfterFree
           | Some s \<Rightarrow>
               let ifp = iface s in
               (case get_iface w ifp of
                  None \<Rightarrow> Inl BadInterface
                | Some ifc \<Rightarrow>
                    let w1 = eloop_timeout_delete p w in
                    (case if_data_arp ifc of
                       None \<Rightarrow> Inl NullDeref
                     | Some state \<Rightarrow>
                         let state' = state\<lparr>arp_states := remove1 p (arp_states state)\<rparr>;
                             w2 = set_if_data ifp (Some state') w1;
                             w3 = (if free_cb s \<noteq> None then emit (CbFree p) w2 else w2);
                             w4 = free p w3
                         in if arp_states state' = [] then
                              (case arp_close ifp w4 of
                                 Inl f \<Rightarrow> Inl f
                               | Inr w5 \<Rightarrow> Inr (set_if_data ifp None w5))
                            else Inr (bpf_arp ifp (fd state') w4)))))"

subsection \<open>Sending a request\<close>

text \<open>
  Constants of the system headers: \<^verbatim>\<open>sizeof(struct arphdr)\<close> (the source asserts it is 8),
  the EtherTypes and the ARP request opcode; \<^verbatim>\<open>htons\<close> lays a 16-bit value out in network
  byte order. \<^verbatim>\<open>struct arphdr\<close> is hardware type (2 bytes), protocol type (2), hardware
  length (1), protocol length (1), opcode (2).
\<close>

definition sizeof_arphdr :: nat where
  "sizeof_arphdr = 8"

definition ETHERTYPE_IP :: "16 word" where
  "ETHERTYPE_IP = 0x0800"

definition ETHERTYPE_ARP :: "16 word" where
  "ETHERTYPE_ARP = 0x0806"

definition ARPOP_REQUEST :: "16 word" where
  "ARPOP_REQUEST = 1"

definition htons :: "16 word \<Rightarrow> byte list" where
  "htons x = [ucast (drop_bit 8 x), ucast x]"

definition arphdr :: "16 word \<Rightarrow> 16 word \<Rightarrow> nat \<Rightarrow> nat \<Rightarrow> 16 word \<Rightarrow> byte list" where
  "arphdr hrd pro hln pln opc = htons hrd @ htons pro @ [of_nat hln, of_nat pln] @ htons opc"

definition ARP_LEN :: "world \<Rightarrow> nat" where
  "ARP_LEN w = sizeof_arphdr + 2 * 4 + 2 * HWADDR_LEN w"

text \<open>
  The macros \<^verbatim>\<open>APPEND\<close> and \<^verbatim>\<open>ZERO\<close> of \<^verbatim>\<open>arp_request\<close>, on the buffer written so far
  and the running \<^verbatim>\<open>len\<close>: refuse (\<^verbatim>\<open>goto eexit\<close>) when \<open>l\<close> more bytes would not fit in
  the buffer of \<open>cap\<close> bytes, else add them.
\<close>

definition APPEND ::
  "nat \<Rightarrow> byte list \<Rightarrow> nat \<Rightarrow> byte list \<times> nat \<Rightarrow> (byte list \<times> nat) option" where
  "APPEND cap b l st =
     (if snd st + l > cap then None else Some (fst st @ take l b, snd st + l))"

definition ZERO :: "nat \<Rightarrow> nat \<Rightarrow> byte list \<times> nat \<Rightarrow> (byte list \<times> nat) option" where
  "ZERO cap l st =
     (if snd st + l > cap then None else Some (fst st @ replicate l 0, snd st + l))"

text \<open>\<^verbatim>\<open>bpf_send\<close> is recorded; its result is scripted (the frame's length by default).\<close>

definition bpf_send :: "ifid \<Rightarrow> int \<Rightarrow> 16 word \<Rightarrow> byte list \<Rightarrow> world \<Rightarrow> int \<times> world" where
  "bpf_send ifp d proto buf w =
     (next_or (int (length buf)) (bpf_send_script w),
      emit (BpfSend ifp d proto buf) (w\<lparr>bpf_send_script := tl (bpf_send_script w)\<rparr>))"

definition arp_request :: "ifid \<Rightarrow> in_addr \<Rightarrow> in_addr \<Rightarrow> world \<Rightarrow> fault + (int \<times> world)" where
  "arp_request ifp sip' tip' w =
     (case get_iface w ifp of
        None \<Rightarrow> Inl BadInterface
      | Some ifc \<Rightarrow>
          let ar = arphdr (family ifc) ETHERTYPE_IP (hwlen ifc) 4 ARPOP_REQUEST;
              cap = ARP_LEN w
          in (case Option.bind (Option.bind (Option.bind (Option.bind
                     (APPEND cap ar sizeof_arphdr ([], 0))
                     (APPEND cap (hwaddr ifc) (hwlen ifc)))
                     (APPEND cap sip' 4))
                     (ZERO cap (hwlen ifc)))
                     (APPEND cap tip' 4) of
                None \<Rightarrow> Inr (-1, w\<lparr>errno := ENOBUFS\<rparr>)
              | Some (arp_buffer, len) \<Rightarrow>
                  (case if_data_arp ifc of
                     None \<Rightarrow> Inl NullDeref
                   | Some state \<Rightarrow> Inr (bpf_send ifp (fd state) ETHERTYPE_ARP arp_buffer w))))"

subsection \<open>Opening the transport\<close>

definition arp_open :: "ifid \<Rightarrow> world \<Rightarrow> fault + (int \<times> world)" where
  "arp_open ifp w =
     (case get_iface w ifp of
        None \<Rightarrow> Inl BadInterface
      | Some ifc \<Rightarrow>
          (case if_data_arp ifc of
             None \<Rightarrow> Inl NullDeref
           | Some state \<Rightarrow>
               if fd state = -1 then
                 (case bpf_open ifp w of
                    (d, w1) \<Rightarrow>
                      let w2 = set_if_data ifp (Some (state\<lparr>fd := d\<rparr>)) w1
                      in if d = -1 then Inr (-1, w2) else Inr (d, eloop_event_add d w2))
               else Inr (fd state, w)))"

subsection \<open>Probing\<close>

text \<open>
  Modelled from the spec: the protocol constants of \<^verbatim>\<open>arp.h\<close>, which is not part of the
  source file: PROBE_MIN = 1 s, PROBE_MAX = 2 s, PROBE_NUM = 3, ANNOUNCE_NUM = 2,
  ANNOUNCE_WAIT = 2 s.
\<close>

definition PROBE_MIN :: nat where
  "PROBE_MIN = 1"

definition PROBE_MAX :: nat where
  "PROBE_MAX = 2"

definition PROBE_NUM :: int where
  "PROBE_NUM = 3"

definition ANNOUNCE_NUM :: int where
  "ANNOUNCE_NUM = 2"

definition ANNOUNCE_WAIT :: nat where
  "ANNOUNCE_WAIT = 2"

definition NSEC_PER_SEC :: nat where
  "NSEC_PER_SEC = 1000000000"

text \<open>
  \<^verbatim>\<open>arc4random_uniform(upper)\<close> returns a value below \<open>upper\<close> (0 when \<open>upper < 2\<close>): the next
  scripted draw, reduced. \<^verbatim>\<open>timespecnorm\<close> carries whole seconds out of the nanoseconds.
  A \<^verbatim>\<open>struct timespec\<close> is the pair of its seconds and nanoseconds.
\<close>

definition arc4random_uniform :: "nat \<Rightarrow> world \<Rightarrow> nat \<times> world" where
  "arc4random_uniform upper w =
     ((if upper < 2 then 0 else next_or 0 (random_script w) mod upper),
      w\<lparr>random_script := tl (random_script w)\<rparr>)"

definition timespecnorm :: "nat \<times> nat \<Rightarrow> nat \<times> nat" where
  "timespecnorm tv = (fst tv + snd tv div NSEC_PER_SEC, snd tv mod NSEC_PER_SEC)"

definition eloop_timeout_add_tv :: "nat \<times> nat \<Rightarrow> handler \<Rightarrow> ptr \<Rightarrow> world \<Rightarrow> world" where
  "eloop_timeout_add_tv tv h arg w = eloop_timeout_add (fst tv * NSEC_PER_SEC + snd tv) h arg w"

definition eloop_timeout_add_sec :: "nat \<Rightarrow> handler \<Rightarrow> ptr \<Rightarrow> world \<Rightarrow> world" where
  "eloop_timeout_add_sec secs h arg w = eloop_timeout_add (secs * NSEC_PER_SEC) h arg w"

text \<open>\<^verbatim>\<open>arp_probed\<close> calls the probed callback, with no test that it is set.\<close>

definition arp_probed :: "ptr \<Rightarrow> world \<Rightarrow> fault + world" where
  "arp_probed p w =
     (case deref w p of
        None \<Rightarrow> Inl UseAfterFree
      | Some s \<Rightarrow>
          (case probed_cb s of
             None \<Rightarrow> Inl NullDeref
           | Some f \<Rightarrow> Inr (emit (CbProbed p) w)))"

text \<open>
  \<^verbatim>\<open>arp_probe1\<close>: count the probe; below \<open>PROBE_NUM\<close>, schedule the next probe after
  \<open>PROBE_MIN\<close> seconds plus a random number of nanoseconds below
  \<open>(PROBE_MAX - PROBE_MIN) * NSEC_PER_SEC\<close>, else schedule \<^verbatim>\<open>arp_probed\<close> after
  \<open>ANNOUNCE_WAIT\<close> seconds; then send the request (a failed send is only logged).
\<close>

definition arp_probe1 :: "ptr \<Rightarrow> world \<Rightarrow> fault + world" where
  "arp_probe1 p w =
     (case deref w p of
        None \<Rightarrow> Inl UseAfterFree
      | Some s \<Rightarrow>
          let ifp = iface s;
              s' = s\<lparr>probes := probes s + 1\<rparr>;
              w1 = store p s' w;
              w3 = (if probes s' < PROBE_NUM then
                      (case arc4random_uniform ((PROBE_MAX - PROBE_MIN) * NSEC_PER_SEC) w1 of
                         (r, w2) \<Rightarrow>
                           eloop_timeout_add_tv (timespecnorm (PROBE_MIN, r)) H_arp_probe1 p w2)
                    else eloop_timeout_add_tv (ANNOUNCE_WAIT, 0) H_arp_probed p w1)
          in (case arp_request ifp zero_addr (addr s') w3 of
                Inl f \<Rightarrow> Inl f
              | Inr (r, w4) \<Rightarrow> Inr w4))"

text \<open>
  \<^verbatim>\<open>arp_probe\<close>: open the transport (give up if that fails), install the filter, reset
  the counter and send the first probe at once.
\<close>

definition arp_probe :: "ptr \<Rightarrow> world \<Rightarrow> fault + world" where
  "arp_probe p w =
     (case deref w p of
        None \<Rightarrow> Inl UseAfterFree
      | Some s \<Rightarrow>
          (case arp_open (iface s) w of
             Inl f \<Rightarrow> Inl f
           | Inr (d, w1) \<Rightarrow>
               if d = -1 then Inr w1
               else
                 (case get_iface w1 (iface s) of
                    None \<Rightarrow> Inl BadInterface
                  | Some ifc \<Rightarrow>
                      (case if_data_arp ifc of
                         None \<Rightarrow> Inl NullDeref
                       | Some state \<Rightarrow>
                           arp_probe1 p
                             (store p (s\<lparr>probes := 0\<rparr>) (bpf_arp (iface s) (fd state) w1))))))"

subsection \<open>Announcing\<close>

text \<open>\<^verbatim>\<open>arp_announced\<close> calls the announced callback if it is set.\<close>

definition arp_announced :: "ptr \<Rightarrow> world \<Rightarrow> fault + world" where
  "arp_announced p w =
     (case deref w p of
        None \<Rightarrow> Inl UseAfterFree
      | Some s \<Rightarrow> Inr (if announced_cb s \<noteq> None then emit (CbAnnounced p) w else w))"

text \<open>
  \<^verbatim>\<open>arp_announce1\<close> (the branch without \<^verbatim>\<open>KERNEL_RFC5227\<close>): count the claim, send the
  request, and schedule, \<open>ANNOUNCE_WAIT\<close> seconds on, the next announcement while the
  count is below \<open>ANNOUNCE_NUM\<close>, else \<^verbatim>\<open>arp_announced\<close>.
\<close>

definition arp_announce1 :: "ptr \<Rightarrow> world \<Rightarrow> fault + world" where
  "arp_announce1 p w =
     (case deref w p of
        None \<Rightarrow> Inl UseAfterFree
      | Some s \<Rightarrow>
          let ifp = iface s;
              s' = s\<lparr>claims := claims s + 1\<rparr>;
              w1 = store p s' w
          in (case arp_request ifp (addr s') (addr s') w1 of
                Inl f \<Rightarrow> Inl f
              | Inr (r, w2) \<Rightarrow>
                  Inr (eloop_timeout_add_sec ANNOUNCE_WAIT
                         (if claims s' < ANNOUNCE_NUM then H_arp_announce1 else H_arp_announced)
                         p w2)))"

definition arp_announce :: "ptr \<Rightarrow> world \<Rightarrow> fault + world" where
  "arp_announce p w =
     (case deref w p of
        None \<Rightarrow> Inl UseAfterFree
      | Some s \<Rightarrow>
          (case arp_open (iface s) w of
             Inl f \<Rightarrow> Inl f
           | Inr (d, w1) \<Rightarrow>
               if d = -1 then Inr w1
               else arp_announce1 p (store p (s\<lparr>claims := 0\<rparr>) w1)))"

subsection \<open>Running the timers\<close>

text \<open>
  Modelled from the spec: the event loop's timer dispatch. The timer that is due first
  is taken off the queue, the clock moves to its fire time, and its handler runs to
  completion. \<open>eloop_run n\<close> fires at most \<open>n\<close> timers and stops early when none is pending.
\<close>

definition run_handler :: "handler \<Rightarrow> ptr \<Rightarrow> world \<Rightarrow> fault + world" where
  "run_handler h arg w =
     (case h of
        H_arp_probe1 \<Rightarrow> arp_probe1 arg w
      | H_arp_probed \<Rightarrow> arp_probed arg w
      | H_arp_announce1 \<Rightarrow> arp_announce1 arg w
      | H_arp_announced \<Rightarrow> arp_announced arg w)"

fun eloop_run :: "nat \<Rightarrow> world \<Rightarrow> fault + world" where
  "eloop_run 0 w = Inr w"
| "eloop_run (Suc n) w =
     (case timeouts w of
        [] \<Rightarrow> Inr w
      | (t, h, arg) # ts \<Rightarrow>
          (case run_handler h arg (w\<lparr>clock := t, timeouts := ts\<rparr>) of
             Inl f \<Rightarrow> Inl f
           | Inr w' \<Rightarrow> eloop_run n w'))"

subsection \<open>Receiving a frame\<close>

text \<open>
  \<^verbatim>\<open>arp_packet\<close>, first half: from the length test to the four field copies. The function
  is given \<open>data\<close> and \<open>len\<close>; the model's buffer is the list of those \<open>len\<close> bytes. Every
  access to the buffer goes through \<open>rd\<close> and is entered, as offset and count, in a log of
  reads that the decoder returns with its result. The result is \<open>None\<close> for a frame
  dropped silently.

  The message \<^verbatim>\<open>arm\<close> is an uninitialised local of the C function: \<open>arm0\<close> stands for what
  the fields hold before the copies. A copy of \<open>n\<close> bytes overwrites the first \<open>n\<close> bytes of
  its destination; a copy longer than the destination (\<open>HWADDR_LEN\<close> bytes for a hardware
  address, 4 for \<^verbatim>\<open>s_addr\<close>) is a fault.
\<close>

type_synonym access = "nat \<times> nat"

definition rd :: "byte list \<Rightarrow> nat \<Rightarrow> nat \<Rightarrow> byte list" where
  "rd data off n = take n (drop off data)"

definition memcpy_into :: "byte list \<Rightarrow> byte list \<Rightarrow> nat \<Rightarrow> fault + byte list" where
  "memcpy_into dst src cap =
     (if length src > cap then Inl DestOverflow else Inr (src @ drop (length src) dst))"

text \<open>
  The loop over \<^verbatim>\<open>ifp->ctx->ifaces\<close>: stop at the first interface whose hardware length
  is the frame's and whose hardware address is the frame's sender hardware address.
\<close>

fun from_self :: "byte list \<Rightarrow> nat \<Rightarrow> interface list \<Rightarrow> access list \<Rightarrow> bool \<times> access list" where
  "from_self data ar_hln [] log = (False, log)"
| "from_self data ar_hln (ifn # ifns) log =
     (if ar_hln = hwlen ifn then
        (if rd data sizeof_arphdr (hwlen ifn) = take (hwlen ifn) (hwaddr ifn)
         then (True, log @ [(sizeof_arphdr, hwlen ifn)])
         else from_self data ar_hln ifns (log @ [(sizeof_arphdr, hwlen ifn)]))
      else from_self data ar_hln ifns log)"

text \<open>The four copies into \<^verbatim>\<open>arm\<close>, in the order of the source.\<close>

definition arp_packet_copy ::
  "world \<Rightarrow> arp_msg \<Rightarrow> byte list \<Rightarrow> nat \<Rightarrow> nat \<Rightarrow> access list \<Rightarrow>
   access list \<times> (fault + arp_msg option)" where
  "arp_packet_copy w arm0 data ar_hln ar_pln log2 =
     (let hw_s = sizeof_arphdr;
          hw_t = hw_s + ar_hln + ar_pln;
          log3 = log2 @ [(hw_s, ar_hln)]
      in (case memcpy_into (sha arm0) (rd data hw_s ar_hln) (HWADDR_LEN w) of
            Inl f \<Rightarrow> (log3, Inl f)
          | Inr sha' \<Rightarrow>
              let log4 = log3 @ [(hw_s + ar_hln, ar_pln)] in
              (case memcpy_into (sip arm0) (rd data (hw_s + ar_hln) ar_pln) 4 of
                 Inl f \<Rightarrow> (log4, Inl f)
               | Inr sip' \<Rightarrow>
                   let log5 = log4 @ [(hw_t, ar_hln)] in
                   (case memcpy_into (tha arm0) (rd data hw_t ar_hln) (HWADDR_LEN w) of
                      Inl f \<Rightarrow> (log5, Inl f)
                    | Inr tha' \<Rightarrow>
                        let log6 = log5 @ [(hw_t + ar_hln, ar_pln)] in
                        (case memcpy_into (tip arm0) (rd data (hw_t + ar_hln) ar_pln) 4 of
                           Inl f \<Rightarrow> (log6, Inl f)
                         | Inr tip' \<Rightarrow>
                             (log6, Inr (Some (arm0\<lparr>sha := sha', sip := sip',
                                                tha := tha', tip := tip'\<rparr>))))))))"

text \<open>
  The decoder: the header must be complete; the two length bytes of the header place
  the fields; the frame must hold all four fields; a frame from one of our own
  interfaces is dropped; then the fields are copied.
\<close>

definition arp_packet_decode ::
  "world \<Rightarrow> arp_msg \<Rightarrow> byte list \<Rightarrow> access list \<times> (fault + arp_msg option)" where
  "arp_packet_decode w arm0 data =
     (let len = length data in
      if len < sizeof_arphdr then ([], Inr None)
      else
        let ar = rd data 0 sizeof_arphdr;
            log1 = [(0, sizeof_arphdr)];
            ar_hln = unat (ar ! 4);
            ar_pln = unat (ar ! 5);
            hw_s = sizeof_arphdr;
            hw_t = hw_s + ar_hln + ar_pln
        in if hw_t + ar_hln + ar_pln > len then (log1, Inr None)
           else
             (case from_self data ar_hln (ifaces w) log1 of
                (True, log2) \<Rightarrow> (log2, Inr None)
              | (False, log2) \<Rightarrow> arp_packet_copy w arm0 data ar_hln ar_pln log2))"

text \<open>
  The queue primitives on the list of pointers: \<^verbatim>\<open>TAILQ_FIRST\<close> and \<^verbatim>\<open>TAILQ_NEXT\<close>, the
  latter read off the queue the element is linked in.
\<close>

definition TAILQ_FIRST :: "ptr list \<Rightarrow> ptr option" where
  "TAILQ_FIRST q = (case q of [] \<Rightarrow> None | x # _ \<Rightarrow> Some x)"

fun next_in :: "ptr list \<Rightarrow> ptr \<Rightarrow> ptr option" where
  "next_in [] p = None"
| "next_in (x # xs) p = (if x = p then TAILQ_FIRST xs else next_in xs p)"

definition TAILQ_NEXT :: "world \<Rightarrow> arp_state \<Rightarrow> ptr \<Rightarrow> ptr option" where
  "TAILQ_NEXT w s p = next_in (sessions_of w (iface s)) p"

text \<open>
  The owning layer's conflicted callback: the call is recorded, then the callback frees
  the sessions it frees, in order.
\<close>

fun owner_frees :: "ptr list \<Rightarrow> world \<Rightarrow> fault + world" where
  "owner_frees [] w = Inr w"
| "owner_frees (q # qs) w =
     (case arp_free (Some q) w of
        Inl f \<Rightarrow> Inl f
      | Inr w' \<Rightarrow> owner_frees qs w')"

definition call_conflicted :: "conflicted_fn \<Rightarrow> ptr \<Rightarrow> arp_msg \<Rightarrow> world \<Rightarrow> fault + world" where
  "call_conflicted cb p arm w = owner_frees (frees cb) (emit (CbConflicted p arm) w)"

text \<open>
  \<^verbatim>\<open>arp_packet\<close>, second half: \<^verbatim>\<open>TAILQ_FOREACH_SAFE\<close> over the interface's sessions. Each
  round reads the current session through its pointer, saves its successor, and, when
  the message's sender or target address is the session's, calls the conflicted
  callback if it is set; the next round takes the saved successor. The first argument
  bounds the number of rounds: a queue is finite, and \<^verbatim>\<open>arp_packet\<close> passes one more
  than the length the queue has when the loop starts.
\<close>

fun arp_conflicts :: "nat \<Rightarrow> arp_msg \<Rightarrow> ptr option \<Rightarrow> world \<Rightarrow> fault + world" where
  "arp_conflicts n arm None w = Inr w"
| "arp_conflicts 0 arm (Some p) w = Inl OutOfFuel"
| "arp_conflicts (Suc n) arm (Some p) w =
     (case deref w p of
        None \<Rightarrow> Inl UseAfterFree
      | Some s \<Rightarrow>
          let astaten = TAILQ_NEXT w s p in
          if sip arm \<noteq> addr s \<and> tip arm \<noteq> addr s then arp_conflicts n arm astaten w
          else
            (case conflicted_cb s of
               None \<Rightarrow> arp_conflicts n arm astaten w
             | Some cb \<Rightarrow>
                 (case call_conflicted cb p arm w of
                    Inl f \<Rightarrow> Inl f
                  | Inr w' \<Rightarrow> arp_conflicts n arm astaten w')))"

definition arp_packet :: "arp_msg \<Rightarrow> ifid \<Rightarrow> byte list \<Rightarrow> world \<Rightarrow> fault + world" where
  "arp_packet arm0 ifp data w =
     (case snd (arp_packet_decode w arm0 data) of
        Inl f \<Rightarrow> Inl f
      | Inr None \<Rightarrow> Inr w
      | Inr (Some arm) \<Rightarrow>
          (case get_iface w ifp of
             None \<Rightarrow> Inl BadInterface
           | Some ifc \<Rightarrow>
               (case if_data_arp ifc of
                  None \<Rightarrow> Inl NullDeref
                | Some state \<Rightarrow>
                    arp_conflicts (Suc (length (arp_states state))) arm
                      (TAILQ_FIRST (arp_states state)) w)))"

section \<open>Vocabulary of the properties\<close>

text \<open>
  An ARP request on the wire, byte by byte (RFC 826), as an interface sends it for a
  sender IP \<open>s\<close> and a target IP \<open>t\<close>: hardware type (the interface's, high byte first),
  protocol type \<open>0x0800\<close> (IPv4), hardware address length, protocol address length 4,
  opcode 1 (request); then the interface's hardware address, the sender IP, a target
  hardware address of zeros, and the target IP.
\<close>

definition arp_request_frame :: "interface \<Rightarrow> in_addr \<Rightarrow> in_addr \<Rightarrow> byte list" where
  "arp_request_frame ifc s t =
     [ucast (drop_bit 8 (family ifc)), ucast (family ifc), 0x08, 0x00,
      of_nat (hwlen ifc), 4, 0x00, 0x01] @
     take (hwlen ifc) (hwaddr ifc) @ take 4 s @ replicate (hwlen ifc) 0 @ take 4 t"

text \<open>
  The calls of conflicted callbacks that a trace records, in order: which session, with
  which message.
\<close>

fun conflicted_calls :: "(nat \<times> event) list \<Rightarrow> (ptr \<times> arp_msg) list" where
  "conflicted_calls [] = []"
| "conflicted_calls ((t, CbConflicted p m) # es) = (p, m) # conflicted_calls es"
| "conflicted_calls (e # es) = conflicted_calls es"

text \<open>
  A session matches a message when the message's sender IP or target IP is the session's
  address; the opcode plays no part.
\<close>

definition matches :: "world \<Rightarrow> arp_msg \<Rightarrow> ptr \<Rightarrow> bool" where
  "matches w arm p =
     (case deref w p of None \<Rightarrow> False | Some s \<Rightarrow> sip arm = addr s \<or> tip arm = addr s)"

definition has_conflicted_cb :: "world \<Rightarrow> ptr \<Rightarrow> bool" where
  "has_conflicted_cb w p =
     (case deref w p of None \<Rightarrow> False | Some s \<Rightarrow> conflicted_cb s \<noteq> None)"

text \<open>A session whose conflicted callback, if it has one, frees nothing or only the session itself.\<close>

definition frees_at_most_itself :: "world \<Rightarrow> ptr \<Rightarrow> bool" where
  "frees_at_most_itself w p =
     (case deref w p of
        None \<Rightarrow> False
      | Some s \<Rightarrow>
          (case conflicted_cb s of
             None \<Rightarrow> True
           | Some cb \<Rightarrow> frees cb = [] \<or> frees cb = [p]))"

text \<open>
  The state is well formed when the queues and the heap agree: every queue is free of
  duplicates and holds live sessions of its own interface, and every live session is in
  the queue of its interface. \<^verbatim>\<open>arp_free\<close> keeps it so.
\<close>

definition wf_world :: "world \<Rightarrow> bool" where
  "wf_world w =
     (list_all
        (\<lambda>i. distinct (sessions_of w i) \<and>
             list_all (\<lambda>p. case deref w p of None \<Rightarrow> False | Some s \<Rightarrow> iface s = i)
               (sessions_of w i))
        [0..<length (ifaces w)] \<and>
      list_all
        (\<lambda>p. case deref w p of None \<Rightarrow> True | Some s \<Rightarrow> p \<in> set (sessions_of w (iface s)))
        [0..<length (heap w)])"

text \<open>
  While callbacks free sessions, sessions only die, and every queue is what it was, less
  the dead.
\<close>

definition live :: "world \<Rightarrow> ptr \<Rightarrow> bool" where
  "live w p = (deref w p \<noteq> None)"

definition shrinks :: "world \<Rightarrow> world \<Rightarrow> bool" where
  "shrinks w w' =
     ((\<forall>p. live w' p \<longrightarrow> deref w' p = deref w p) \<and>
      (\<forall>i. sessions_of w' i = filter (live w') (sessions_of w i)))"

text \<open>The part of a queue that a loop standing at \<open>cur\<close> has still to visit.\<close>

definition from_cur :: "ptr list \<Rightarrow> ptr option \<Rightarrow> ptr list" where
  "from_cur q cur = (case cur of None \<Rightarrow> [] | Some p \<Rightarrow> dropWhile (\<lambda>x. x \<noteq> p) q)"

text \<open>
  What a dispatch of \<open>arm\<close> over the sessions \<open>todo\<close> has achieved when it ends in \<open>w'\<close> with
  the queue \<open>remaining\<close>: the callbacks called are those of the sessions \<open>ps\<close>, each once,
  all of them sessions of \<open>todo\<close> that match and have a callback, and no matching
  session that is still in the queue has been left out.
\<close>

definition dispatched ::
  "world \<Rightarrow> arp_msg \<Rightarrow> ptr list \<Rightarrow> world \<Rightarrow> ptr list \<Rightarrow> ptr list \<Rightarrow> bool" where
  "dispatched w arm todo w' remaining ps =
     (conflicted_calls (trace w') = conflicted_calls (trace w) @ map (\<lambda>p. (p, arm)) ps \<and>
      distinct ps \<and> set ps \<subseteq> set todo \<and>
      (\<forall>p\<in>set ps. matches w arm p \<and> has_conflicted_cb w p) \<and>
      (\<forall>q\<in>set remaining. q \<in> set todo \<longrightarrow> matches w arm q \<longrightarrow> has_conflicted_cb w q \<longrightarrow>
          q \<in> set ps))"

text \<open>The sessions that the conflicted callback of a session frees (none without a callback).\<close>

definition frees_of :: "world \<Rightarrow> ptr \<Rightarrow> ptr list" where
  "frees_of w p =
     (case deref w p of
        None \<Rightarrow> []
      | Some s \<Rightarrow> (case conflicted_cb s of None \<Rightarrow> [] | Some cb \<Rightarrow> frees cb))"

text \<open>
  The sessions that a dispatch of \<open>arm\<close> down a queue should notify, read off the queue
  and the callbacks alone: a session is notified when it matches, has a callback, and
  has not been freed by the callback of a session notified before it (\<open>dead\<close> collects
  the sessions freed so far).
\<close>

fun notified :: "world \<Rightarrow> arp_msg \<Rightarrow> ptr list \<Rightarrow> ptr list \<Rightarrow> ptr list" where
  "notified w arm dead [] = []"
| "notified w arm dead (p # ps) =
     (if p \<notin> set dead \<and> matches w arm p \<and> has_conflicted_cb w p
      then p # notified w arm (frees_of w p @ dead) ps
      else notified w arm dead ps)"

text \<open>
  What the loop of \<^verbatim>\<open>arp_packet\<close> can bear of the callbacks it calls. The predicate goes
  the way of the loop, from the session \<open>cur\<close> in the state \<open>w\<close>, for at most \<open>n\<close> rounds, and
  asks of each callback that is called, at the moment it is called: the sessions it
  frees are all different, they are all still allocated, and the session the loop has
  saved as its next element is not one of them. A callback may free its own session
  and any other session but that one.
\<close>

fun spares_successor :: "nat \<Rightarrow> arp_msg \<Rightarrow> ptr option \<Rightarrow> world \<Rightarrow> bool" where
  "spares_successor n arm None w = True"
| "spares_successor 0 arm (Some p) w = True"
| "spares_successor (Suc n) arm (Some p) w =
     (case deref w p of
        None \<Rightarrow> True
      | Some s \<Rightarrow>
          let astaten = TAILQ_NEXT w s p in
          if sip arm \<noteq> addr s \<and> tip arm \<noteq> addr s then spares_successor n arm astaten w
          else
            (case conflicted_cb s of
               None \<Rightarrow> spares_successor n arm astaten w
             | Some cb \<Rightarrow>
                 distinct (frees cb) \<and> list_all (live w) (frees cb) \<and>
                 astaten \<notin> set (map Some (frees cb)) \<and>
                 (case call_conflicted cb p arm w of
                    Inl f \<Rightarrow> True
                  | Inr w' \<Rightarrow> spares_successor n arm astaten w')))"

definition callbacks_spare_successor :: "world \<Rightarrow> ifid \<Rightarrow> arp_msg \<Rightarrow> bool" where
  "callbacks_spare_successor w ifp arm =
     spares_successor (Suc (length (sessions_of w ifp))) arm (TAILQ_FIRST (sessions_of w ifp)) w"

subsection \<open>Example states\<close>

text \<open>
  One Ethernet interface (index 0, hardware address \<open>02:00:00:00:00:01\<close>) in a build with
  \<open>HWADDR_LEN = 20\<close>; sessions on it with all of the probed, announced and free callbacks
  set.
\<close>

definition ex_iface :: "iarp_state option \<Rightarrow> interface" where
  "ex_iface ctx =
     \<lparr>family = 1, hwaddr = [2, 0, 0, 0, 0, 1] @ replicate 14 0, hwlen = 6, if_data_arp = ctx\<rparr>"

definition ex_session :: "in_addr \<Rightarrow> conflicted_fn option \<Rightarrow> arp_state" where
  "ex_session a cb =
     \<lparr>iface = 0, addr = a, probes = 0, claims = 0, conflicted_cb = cb,
      probed_cb = Some 1, announced_cb = Some 2, free_cb = Some 3\<rparr>"

definition ex_world :: "iarp_state option \<Rightarrow> arp_state option list \<Rightarrow> world" where
  "ex_world ctx h =
     \<lparr>HWADDR_LEN = 20, ifaces = [ex_iface ctx], heap = h, timeouts = [], events = [],
      clock = 0, trace = [], errno = ENONE, malloc_script = [], bpf_open_script = [],
      bpf_send_script = [], random_script = []\<rparr>"

definition ex_addr_a :: in_addr where
  "ex_addr_a = [10, 0, 0, 1]"

definition ex_addr_b :: in_addr where
  "ex_addr_b = [10, 0, 0, 2]"

text \<open>What the local \<^verbatim>\<open>arm\<close> of \<^verbatim>\<open>arp_packet\<close> may hold on entry.\<close>

definition ex_arm0 :: arp_msg where
  "ex_arm0 = \<lparr>op = 0, sha = replicate 20 0, sip = zero_addr, tha = replicate 20 0, tip = zero_addr\<rparr>"

text \<open>
  A frame from a foreign host (hardware address \<open>02:00:00:00:00:09\<close>) with the given
  sender and target IP, and the message that \<^verbatim>\<open>arp_packet\<close> decodes from it.
\<close>

definition ex_frame :: "in_addr \<Rightarrow> in_addr \<Rightarrow> byte list" where
  "ex_frame s t = [0, 1, 8, 0, 6, 4, 0, 1] @ [2, 0, 0, 0, 0, 9] @ s @ replicate 6 0 @ t"

definition ex_msg :: "in_addr \<Rightarrow> in_addr \<Rightarrow> arp_msg" where
  "ex_msg s t =
     \<lparr>op = 0, sha = [2, 0, 0, 0, 0, 9] @ replicate 14 0, sip = s, tha = replicate 20 0, tip = t\<rparr>"

definition ex_addr_c :: in_addr where
  "ex_addr_c = [10, 0, 0, 3]"

text \<open>
  Sessions on interface 0, each given by its address and by the sessions its conflicted
  callback frees, with the queue \<open>q\<close> and the descriptor open.
\<close>

definition ex_dispatch :: "(in_addr \<times> ptr list) list \<Rightarrow> ptr list \<Rightarrow> world" where
  "ex_dispatch ss q =
     ex_world (Some \<lparr>fd = 3, arp_states = q\<rparr>)
       (map (\<lambda>(a, f). Some (ex_session a (Some (Conflicted_fn f)))) ss)"

lemmas ex_defs = ex_iface_def ex_session_def ex_world_def ex_addr_a_def ex_addr_b_def ex_arm0_def
  ex_frame_def ex_msg_def ex_addr_c_def

section \<open>Properties\<close>

subsection \<open>Store access\<close>

lemmas store_defs = deref_def get_iface_def set_if_data_def store_def free_def emit_def
  sessions_of_def eloop_timeout_delete_def eloop_event_delete_def eloop_event_add_def
  bpf_close_def bpf_arp_def

lemma deref_SomeD: "deref w p = Some s \<Longrightarrow> p < length (heap w) \<and> heap w ! p = Some s"
  by (auto simp: deref_def split: if_splits)

lemma get_iface_SomeD: "get_iface w i = Some ifc \<Longrightarrow> i < length (ifaces w) \<and> ifaces w ! i = ifc"
  by (auto simp: get_iface_def split: if_splits)

lemma deref_heap_cong: "heap w' = heap w \<Longrightarrow> deref w' = deref w"
  by (simp add: deref_def fun_eq_iff)

lemma get_iface_ifaces_cong: "ifaces w' = ifaces w \<Longrightarrow> get_iface w' = get_iface w"
  by (simp add: get_iface_def fun_eq_iff)

lemma sessions_of_ifaces_cong: "ifaces w' = ifaces w \<Longrightarrow> sessions_of w' = sessions_of w"
  by (simp add: sessions_of_def get_iface_def fun_eq_iff)

lemma deref_updates [simp]:
  "deref (w\<lparr>HWADDR_LEN := a1\<rparr>) = deref w"
  "deref (w\<lparr>ifaces := a2\<rparr>) = deref w"
  "deref (w\<lparr>timeouts := a3\<rparr>) = deref w"
  "deref (w\<lparr>events := a4\<rparr>) = deref w"
  "deref (w\<lparr>clock := a5\<rparr>) = deref w"
  "deref (w\<lparr>trace := a6\<rparr>) = deref w"
  "deref (w\<lparr>errno := a7\<rparr>) = deref w"
  "deref (w\<lparr>malloc_script := a8\<rparr>) = deref w"
  "deref (w\<lparr>bpf_open_script := a9\<rparr>) = deref w"
  "deref (w\<lparr>bpf_send_script := a10\<rparr>) = deref w"
  "deref (w\<lparr>random_script := a11\<rparr>) = deref w"
  "deref (emit e w) = deref w"
  "deref (set_if_data i x w) = deref w"
  "deref (eloop_timeout_add ns h arg w) = deref w"
  "deref (eloop_timeout_delete arg w) = deref w"
  "deref (eloop_event_add d w) = deref w"
  "deref (eloop_event_delete d w) = deref w"
  "deref (bpf_close d w) = deref w"
  "deref (bpf_arp i d w) = deref w"
  by (rule deref_heap_cong, simp add: store_defs eloop_timeout_add_def)+

lemma get_iface_updates [simp]:
  "get_iface (w\<lparr>HWADDR_LEN := a1\<rparr>) = get_iface w"
  "get_iface (w\<lparr>heap := a2\<rparr>) = get_iface w"
  "get_iface (w\<lparr>timeouts := a3\<rparr>) = get_iface w"
  "get_iface (w\<lparr>events := a4\<rparr>) = get_iface w"
  "get_iface (w\<lparr>clock := a5\<rparr>) = get_iface w"
  "get_iface (w\<lparr>trace := a6\<rparr>) = get_iface w"
  "get_iface (w\<lparr>errno := a7\<rparr>) = get_iface w"
  "get_iface (w\<lparr>malloc_script := a8\<rparr>) = get_iface w"
  "get_iface (w\<lparr>bpf_open_script := a9\<rparr>) = get_iface w"
  "get_iface (w\<lparr>bpf_send_script := a10\<rparr>) = get_iface w"
  "get_iface (w\<lparr>random_script := a11\<rparr>) = get_iface w"
  "get_iface (emit e w) = get_iface w"
  "get_iface (store p s w) = get_iface w"
  "get_iface (free p w) = get_iface w"
  "get_iface (eloop_timeout_add ns h arg w) = get_iface w"
  "get_iface (eloop_timeout_delete arg w) = get_iface w"
  "get_iface (eloop_event_add d w) = get_iface w"
  "get_iface (eloop_event_delete d w) = get_iface w"
  "get_iface (bpf_close d w) = get_iface w"
  "get_iface (bpf_arp i d w) = get_iface w"
  by (rule get_iface_ifaces_cong, simp add: store_defs eloop_timeout_add_def)+

lemma sessions_of_updates [simp]:
  "sessions_of (w\<lparr>HWADDR_LEN := a1\<rparr>) = sessions_of w"
  "sessions_of (w\<lparr>heap := a2\<rparr>) = sessions_of w"
  "sessions_of (w\<lparr>timeouts := a3\<rparr>) = sessions_of w"
  "sessions_of (w\<lparr>events := a4\<rparr>) = sessions_of w"
  "sessions_of (w\<lparr>clock := a5\<rparr>) = sessions_of w"
  "sessions_of (w\<lparr>trace := a6\<rparr>) = sessions_of w"
  "sessions_of (w\<lparr>errno := a7\<rparr>) = sessions_of w"
  "sessions_of (w\<lparr>malloc_script := a8\<rparr>) = sessions_of w"
  "sessions_of (w\<lparr>bpf_open_script := a9\<rparr>) = sessions_of w"
  "sessions_of (w\<lparr>bpf_send_script := a10\<rparr>) = sessions_of w"
  "sessions_of (w\<lparr>random_script := a11\<rparr>) = sessions_of w"
  "sessions_of (emit e w) = sessions_of w"
  "sessions_of (store p s w) = sessions_of w"
  "sessions_of (free p w) = sessions_of w"
  "sessions_of (eloop_timeout_add ns h arg w) = sessions_of w"
  "sessions_of (eloop_timeout_delete arg w) = sessions_of w"
  "sessions_of (eloop_event_add d w) = sessions_of w"
  "sessions_of (eloop_event_delete d w) = sessions_of w"
  "sessions_of (bpf_close d w) = sessions_of w"
  "sessions_of (bpf_arp i d w) = sessions_of w"
  by (rule sessions_of_ifaces_cong, simp add: store_defs eloop_timeout_add_def)+

lemma deref_heap_update [simp]:
  "deref (w\<lparr>heap := h\<rparr>) p = (if p < length h then h ! p else None)"
  by (simp add: deref_def)

lemma get_iface_ifaces_update [simp]:
  "get_iface (w\<lparr>ifaces := xs\<rparr>) i = (if i < length xs then Some (xs ! i) else None)"
  by (simp add: get_iface_def)

lemma deref_store [simp]:
  "deref (store q s w) p = (if p = q \<and> q < length (heap w) then Some s else deref w p)"
  by (simp add: deref_def store_def)

lemma deref_free [simp]: "deref (free q w) p = (if p = q then None else deref w p)"
  by (simp add: deref_def free_def)

lemma get_iface_set_if_data [simp]:
  "get_iface (set_if_data i x w) j =
     (if j = i then map_option (\<lambda>ifc. ifc\<lparr>if_data_arp := x\<rparr>) (get_iface w i) else get_iface w j)"
  by (simp add: get_iface_def set_if_data_def)

lemma sessions_of_set_if_data [simp]:
  "sessions_of (set_if_data i x w) j =
     (if j = i \<and> i < length (ifaces w) then (case x of None \<Rightarrow> [] | Some st \<Rightarrow> arp_states st)
      else sessions_of w j)"
  by (simp add: sessions_of_def get_iface_def set_if_data_def)

lemma trace_ops [simp]:
  "trace (emit e w) = trace w @ [(clock w, e)]"
  "trace (store p s w) = trace w"
  "trace (free p w) = trace w"
  "trace (set_if_data i x w) = trace w"
  "trace (eloop_timeout_add ns h arg w) = trace w"
  "trace (eloop_timeout_delete arg w) = trace w"
  "trace (eloop_event_add d w) = trace w"
  "trace (eloop_event_delete d w) = trace w"
  "trace (bpf_close d w) = trace w @ [(clock w, BpfClose d)]"
  "trace (bpf_arp i d w) = trace w @ [(clock w, BpfArp i d)]"
  by (simp_all add: store_defs eloop_timeout_add_def)

lemma clock_ops [simp]:
  "clock (emit e w) = clock w"
  "clock (store p s w) = clock w"
  "clock (free p w) = clock w"
  "clock (set_if_data i x w) = clock w"
  "clock (eloop_timeout_add ns h arg w) = clock w"
  "clock (eloop_timeout_delete arg w) = clock w"
  "clock (eloop_event_add d w) = clock w"
  "clock (eloop_event_delete d w) = clock w"
  "clock (bpf_close d w) = clock w"
  "clock (bpf_arp i d w) = clock w"
  by (simp_all add: store_defs eloop_timeout_add_def)

lemma ifaces_ops [simp]:
  "ifaces (emit e w) = ifaces w"
  "ifaces (store p s w) = ifaces w"
  "ifaces (free p w) = ifaces w"
  "length (ifaces (set_if_data i x w)) = length (ifaces w)"
  "ifaces (eloop_timeout_add ns h arg w) = ifaces w"
  "ifaces (eloop_timeout_delete arg w) = ifaces w"
  "ifaces (eloop_event_add d w) = ifaces w"
  "ifaces (eloop_event_delete d w) = ifaces w"
  "ifaces (bpf_close d w) = ifaces w"
  "ifaces (bpf_arp i d w) = ifaces w"
  by (simp_all add: store_defs eloop_timeout_add_def)

lemma heap_ops [simp]:
  "heap (emit e w) = heap w"
  "length (heap (store p s w)) = length (heap w)"
  "length (heap (free p w)) = length (heap w)"
  "heap (set_if_data i x w) = heap w"
  "heap (eloop_timeout_add ns h arg w) = heap w"
  "heap (eloop_timeout_delete arg w) = heap w"
  "heap (eloop_event_add d w) = heap w"
  "heap (eloop_event_delete d w) = heap w"
  "heap (bpf_close d w) = heap w"
  "heap (bpf_arp i d w) = heap w"
  by (simp_all add: store_defs eloop_timeout_add_def)

subsection \<open>Freeing a session\<close>

text \<open>
  C10. \<^verbatim>\<open>arp_free(NULL)\<close> returns immediately: the whole state (every interface context,
  every session queue, every descriptor, the timers, the trace of transport calls) is
  what it was.
\<close>

theorem arp_free_null_noop: "arp_free None w = Inr w"
  by (simp add: arp_free_def)

text \<open>
  C7. Freeing a live session whose interface has a context: the session's pending timers
  are cancelled, it leaves the queue, its free callback is called if set, and its memory
  is released. If the queue is then empty, the descriptor (if open) is deregistered and
  closed and the interface's context slot is cleared; otherwise the context stays, with
  its descriptor and the event registrations untouched, and the only transport call is
  the reinstallation of the receive filter.
\<close>

theorem arp_free_session:
  assumes "deref w p = Some s" and "get_iface w (iface s) = Some ifc"
    and "if_data_arp ifc = Some st" and "distinct (arp_states st)"
  shows "\<exists>w'. arp_free (Some p) w = Inr w' \<and>
     timeouts w' = filter (\<lambda>t. snd (snd t) \<noteq> p) (timeouts w) \<and>
     sessions_of w' (iface s) = remove1 p (arp_states st) \<and>
     p \<notin> set (sessions_of w' (iface s)) \<and>
     deref w' p = None \<and>
     (let cb = (if free_cb s \<noteq> None then [(clock w, CbFree p)] else []) in
      if remove1 p (arp_states st) = [] then
        map_option if_data_arp (get_iface w' (iface s)) = Some None \<and>
        events w' = (if fd st \<noteq> -1 then removeAll (fd st) (events w) else events w) \<and>
        trace w' = trace w @ cb @ (if fd st \<noteq> -1 then [(clock w, BpfClose (fd st))] else [])
      else
        map_option if_data_arp (get_iface w' (iface s)) =
          Some (Some (st\<lparr>arp_states := remove1 p (arp_states st)\<rparr>)) \<and>
        events w' = events w \<and>
        trace w' = trace w @ cb @ [(clock w, BpfArp (iface s) (fd st))])"
  using assms
  by (auto simp: arp_free_def arp_close_def store_defs Let_def split: if_splits)

theorem arp_free_session_witness:
  "(let w = (ex_world (Some \<lparr>fd = 3, arp_states = [0]\<rparr>) [Some (ex_session ex_addr_a None)])
              \<lparr>events := [3], timeouts := [(7, H_arp_probe1, 0)]\<rparr>
    in deref w 0 = Some (ex_session ex_addr_a None) \<and>
       get_iface w 0 = Some (ex_iface (Some \<lparr>fd = 3, arp_states = [0]\<rparr>)) \<and>
       (\<exists>w'. arp_free (Some 0) w = Inr w' \<and> timeouts w' = [] \<and> sessions_of w' 0 = [] \<and>
             deref w' 0 = None \<and> map_option if_data_arp (get_iface w' 0) = Some None \<and>
             events w' = [] \<and> trace w' = [(0, CbFree 0), (0, BpfClose 3)]))"
proof -
  let ?w = "(ex_world (Some \<lparr>fd = 3, arp_states = [0]\<rparr>) [Some (ex_session ex_addr_a None)])
              \<lparr>events := [3], timeouts := [(7, H_arp_probe1, 0)]\<rparr>"
  have h: "deref ?w 0 = Some (ex_session ex_addr_a None)"
    "get_iface ?w (iface (ex_session ex_addr_a None)) = Some (ex_iface (Some \<lparr>fd = 3, arp_states = [0]\<rparr>))"
    "if_data_arp (ex_iface (Some \<lparr>fd = 3, arp_states = [0]\<rparr>)) = Some \<lparr>fd = 3, arp_states = [0]\<rparr>"
    "distinct (arp_states \<lparr>fd = 3, arp_states = [0]\<rparr>)"
    by (simp_all add: ex_defs deref_def get_iface_def)
  from arp_free_session [OF h] h(1,2) show ?thesis
    by (auto simp: ex_defs Let_def)
qed

subsection \<open>Creating a session\<close>

lemma arp_find_loop_None:
  "arp_find_loop w ifp a ps = Inr None \<Longrightarrow> q \<in> set ps \<Longrightarrow>
     \<exists>s. deref w q = Some s \<and> \<not> (addr s = a \<and> iface s = ifp)"
  by (induction ps) (auto split: option.splits if_splits)

lemma arp_find_loop_append:
  assumes "\<forall>q\<in>set ps. \<exists>s. deref w q = Some s \<and> \<not> (addr s = a \<and> iface s = ifp)"
    and "deref w p = Some s" and "addr s = a" and "iface s = ifp"
  shows "arp_find_loop w ifp a (ps @ [p]) = Inr (Some p)"
  using assms by (induction ps) auto

lemma malloc_frame:
  "malloc w = (b, w1) \<Longrightarrow> ifaces w1 = ifaces w \<and> heap w1 = heap w \<and> trace w1 = trace w"
  by (auto simp: malloc_def Let_def split: if_splits)

lemma arp_new_session_result:
  assumes "arp_new_session ifp (Some a) w = Inr (Some p, w1)"
  shows "\<exists>ifc st s. get_iface w ifp = Some ifc \<and> if_data_arp ifc = Some st \<and>
           p = length (heap w) \<and>
           get_iface w1 ifp = Some (ifc\<lparr>if_data_arp := Some (st\<lparr>arp_states := arp_states st @ [p]\<rparr>)\<rparr>) \<and>
           deref w1 p = Some s \<and> addr s = a \<and> iface s = ifp \<and>
           (\<forall>q. q < length (heap w) \<longrightarrow> deref w1 q = deref w q)"
  using assms
  by (auto simp: arp_new_session_def calloc_arp_state_def store_defs Let_def nth_append
      dest!: malloc_frame
      split: prod.splits bool.splits option.splits if_splits)

lemma arp_find_found_again:
  "arp_find ifp a w = Inr (Some p, w1) \<Longrightarrow> w1 = w"
  by (auto simp: arp_find_def split: option.splits sum.splits)


lemma arp_new_found:
  "get_iface w1 ifp = Some ifc1 \<Longrightarrow> if_data_arp ifc1 = Some st1 \<Longrightarrow>
   arp_find_loop w1 ifp a (arp_states st1) = Inr (Some p) \<Longrightarrow>
   arp_new ifp (Some a) w1 = Inr (Some p, w1)"
  by (simp add: arp_new_def arp_find_def)

lemma arp_find_loop_cong:
  "\<forall>q\<in>set ps. deref w' q = deref w q \<Longrightarrow> arp_find_loop w' ifp a ps = arp_find_loop w ifp a ps"
  by (induction ps) (auto split: option.splits)

lemma arp_new_appended:
  assumes new: "arp_new_session ifp (Some a) w = Inr (Some p, w1)"
    and old: "\<forall>q\<in>set (sessions_of w ifp).
                \<exists>s. deref w q = Some s \<and> \<not> (addr s = a \<and> iface s = ifp)"
  shows "arp_new ifp (Some a) w1 = Inr (Some p, w1) \<and> sessions_of w1 ifp = sessions_of w ifp @ [p]"
proof -
  from arp_new_session_result [OF new] obtain ifc st s where
    ifc: "get_iface w ifp = Some ifc" and st: "if_data_arp ifc = Some st"
    and p: "p = length (heap w)"
    and ifc1: "get_iface w1 ifp =
                 Some (ifc\<lparr>if_data_arp := Some (st\<lparr>arp_states := arp_states st @ [p]\<rparr>)\<rparr>)"
    and s: "deref w1 p = Some s" "addr s = a" "iface s = ifp"
    and frame: "\<forall>q. q < length (heap w) \<longrightarrow> deref w1 q = deref w q"
    by blast
  have ss: "sessions_of w ifp = arp_states st"
    using ifc st by (simp add: sessions_of_def)
  have "\<forall>q\<in>set (arp_states st). \<exists>s. deref w1 q = Some s \<and> \<not> (addr s = a \<and> iface s = ifp)"
  proof
    fix q assume q: "q \<in> set (arp_states st)"
    with old ss obtain t where t: "deref w q = Some t" "\<not> (addr t = a \<and> iface t = ifp)"
      by auto
    then have "q < length (heap w)"
      by (auto simp: deref_def split: if_splits)
    with frame t show "\<exists>s. deref w1 q = Some s \<and> \<not> (addr s = a \<and> iface s = ifp)"
      by auto
  qed
  then have "arp_find_loop w1 ifp a (arp_states st @ [p]) = Inr (Some p)"
    using s by (rule arp_find_loop_append)
  then have "arp_new ifp (Some a) w1 = Inr (Some p, w1)"
    using ifc1 by (intro arp_new_found [where ?st1.0 = "st\<lparr>arp_states := arp_states st @ [p]\<rparr>"]) auto
  moreover have "sessions_of w1 ifp = sessions_of w ifp @ [p]"
    using ifc1 ss by (simp add: sessions_of_def)
  ultimately show ?thesis by simp
qed


text \<open>
  C8. When \<^verbatim>\<open>arp_new\<close> has returned a session for an interface and an address, a second
  call with the same pair returns the same session and changes nothing: no second
  session is allocated and the queue is the same. Starting from an interface without
  sessions, the queue holds exactly that one session after the first call, and so after
  the second.
\<close>

theorem arp_new_idempotent:
  assumes "arp_new ifp (Some a) w = Inr (Some p, w1)"
  shows "arp_new ifp (Some a) w1 = Inr (Some p, w1) \<and>
         (sessions_of w ifp = [] \<longrightarrow> sessions_of w1 ifp = [p])"
proof -
  from assms obtain ifc where ifc: "get_iface w ifp = Some ifc"
    by (auto simp: arp_new_def split: option.splits)
  show ?thesis
  proof (cases "if_data_arp ifc")
    case None
    with assms ifc obtain wm where wm: "malloc w = (True, wm)"
      and new: "arp_new_session ifp (Some a)
                  (set_if_data ifp (Some \<lparr>fd = -1, arp_states = []\<rparr>) wm) = Inr (Some p, w1)"
      by (auto simp: arp_new_def split: prod.splits bool.splits)
    let ?w' = "set_if_data ifp (Some \<lparr>fd = -1, arp_states = []\<rparr>) wm"
    have "sessions_of ?w' ifp = []"
      using ifc malloc_frame [OF wm] by (simp add: store_defs)
    with arp_new_appended [OF new] show ?thesis by simp
  next
    case (Some st)
    show ?thesis
    proof (cases "arp_find_loop w ifp a (arp_states st)")
      case (Inl f)
      with assms ifc Some show ?thesis
        by (simp add: arp_new_def arp_find_def)
    next
      case (Inr r)
      show ?thesis
      proof (cases r)
        case None
        let ?w' = "w\<lparr>errno := ESRCH\<rparr>"
        from assms ifc Some Inr None
        have new: "arp_new_session ifp (Some a) ?w' = Inr (Some p, w1)"
          by (simp add: arp_new_def arp_find_def)
        have ss: "sessions_of ?w' ifp = arp_states st" "sessions_of w ifp = arp_states st"
          using ifc Some by (auto simp: store_defs split: if_splits)
        have "\<forall>q\<in>set (sessions_of ?w' ifp).
                \<exists>s. deref ?w' q = Some s \<and> \<not> (addr s = a \<and> iface s = ifp)"
        proof -
          have "deref ?w' = deref w"
            by (simp add: deref_def fun_eq_iff)
          then show ?thesis
            using arp_find_loop_None [of w ifp a "arp_states st"] Inr None ss by auto
        qed
        from arp_new_appended [OF new this] ss show ?thesis by simp
      next
        case (Some q)
        with assms ifc \<open>if_data_arp ifc = Some st\<close> Inr have "w1 = w" "q = p"
          by (simp_all add: arp_new_def arp_find_def)
        moreover have "arp_states st \<noteq> []"
          using Inr Some by auto
        then have "sessions_of w ifp \<noteq> []"
          using ifc \<open>if_data_arp ifc = Some st\<close> by (simp add: sessions_of_def)
        ultimately show ?thesis
          using assms by simp
      qed
    qed
  qed
qed

theorem arp_new_idempotent_witness:
  "\<exists>w1. arp_new 0 (Some ex_addr_a) (ex_world None []) = Inr (Some 0, w1) \<and>
        arp_new 0 (Some ex_addr_a) w1 = Inr (Some 0, w1) \<and>
        sessions_of (ex_world None []) 0 = [] \<and> sessions_of w1 0 = [0] \<and>
        length (heap w1) = 1"
proof -
  have "\<exists>w1. arp_new 0 (Some ex_addr_a) (ex_world None []) = Inr (Some 0, w1) \<and>
          length (heap w1) = 1"
    by (simp add: arp_new_def arp_new_session_def calloc_arp_state_def malloc_def next_or_def
        zero_arp_state_def bpf_arp_def emit_def store_def set_if_data_def get_iface_def
        deref_def Let_def ex_defs)
  then obtain w1 where w1: "arp_new 0 (Some ex_addr_a) (ex_world None []) = Inr (Some 0, w1)"
    "length (heap w1) = 1"
    by blast
  have "sessions_of (ex_world None []) 0 = []"
    by (simp add: sessions_of_def get_iface_def ex_defs)
  with arp_new_idempotent [OF w1(1)] w1 show ?thesis
    by auto
qed

text \<open>
  C5. The failing input: an interface without a context, an allocator that grants the
  context and refuses the session. \<^verbatim>\<open>arp_new\<close> returns null, and the context it has just
  created (descriptor closed, queue empty) is still attached to the interface.
\<close>

theorem arp_new_keeps_context_when_session_alloc_fails:
  "\<exists>w'. arp_new 0 (Some ex_addr_a) ((ex_world None [])\<lparr>malloc_script := [True, False]\<rparr>) =
           Inr (None, w') \<and>
        map_option if_data_arp (get_iface w' 0) = Some (Some \<lparr>fd = -1, arp_states = []\<rparr>) \<and>
        heap w' = []"
  by (simp add: arp_new_def arp_new_session_def calloc_arp_state_def malloc_def next_or_def
      set_if_data_def get_iface_def Let_def ex_defs)

subsection \<open>Sending requests\<close>

lemma length_arphdr [simp]: "length (arphdr hrd pro hln pln opc) = 8"
  by (simp add: arphdr_def htons_def)

lemma htons_constants:
  "htons ETHERTYPE_IP = [0x08, 0x00]" "htons ARPOP_REQUEST = [0x00, 0x01]"
  by (simp_all add: htons_def ETHERTYPE_IP_def ARPOP_REQUEST_def)

lemma arp_request_sends:
  assumes "ifp < length (ifaces w)" and "if_data_arp (ifaces w ! ifp) = Some st"
    and "hwlen (ifaces w ! ifp) \<le> HWADDR_LEN w"
  shows "arp_request ifp a b w =
           Inr (bpf_send ifp (fd st) ETHERTYPE_ARP (arp_request_frame (ifaces w ! ifp) a b) w)"
  using assms
  by (simp add: arp_request_def arp_request_frame_def arphdr_def htons_constants
      htons_def [of "family (ifaces w ! ifp)"] APPEND_def ZERO_def ARP_LEN_def sizeof_arphdr_def
      Let_def get_iface_def)

lemma eloop_run_idle: "timeouts w = [] \<Longrightarrow> eloop_run n w = Inr w"
  by (cases n) simp_all

lemma arp_probe1_step:
  assumes s: "deref w p = Some s"
    and ifc: "get_iface w (iface s) = Some ifc" and st: "if_data_arp ifc = Some st"
    and hw: "hwlen ifc \<le> HWADDR_LEN w"
  shows "\<exists>w'. arp_probe1 p w = Inr w' \<and>
          deref w' p = Some (s\<lparr>probes := probes s + 1\<rparr>) \<and>
          ifaces w' = ifaces w \<and> HWADDR_LEN w' = HWADDR_LEN w \<and> clock w' = clock w \<and>
          trace w' = trace w @
             [(clock w, BpfSend (iface s) (fd st) ETHERTYPE_ARP
                          (arp_request_frame ifc zero_addr (addr s)))] \<and>
          timeouts w' =
            (if probes s + 1 < PROBE_NUM then
               insort_timeout (clock w + (PROBE_MIN * NSEC_PER_SEC +
                    next_or 0 (random_script w) mod ((PROBE_MAX - PROBE_MIN) * NSEC_PER_SEC)),
                  H_arp_probe1, p) (timeouts w)
             else insort_timeout (clock w + ANNOUNCE_WAIT * NSEC_PER_SEC, H_arp_probed, p)
                    (timeouts w)) \<and>
          random_script w' =
            (if probes s + 1 < PROBE_NUM then tl (random_script w) else random_script w)"
proof -
  from deref_SomeD [OF s] have p: "p < length (heap w)" "heap w ! p = Some s" by auto
  from get_iface_SomeD [OF ifc] have i: "iface s < length (ifaces w)" "ifaces w ! iface s = ifc"
    by auto
  show ?thesis
    using p i st hw
    by (simp add: arp_probe1_def Let_def split_def arp_request_sends bpf_send_def
        eloop_timeout_add_tv_def eloop_timeout_add_def arc4random_uniform_def store_defs
        timespecnorm_def PROBE_MIN_def PROBE_MAX_def NSEC_PER_SEC_def add.commute)
qed


lemma arp_request_frame_if_data [simp]:
  "arp_request_frame (ifc\<lparr>if_data_arp := x\<rparr>) a b = arp_request_frame ifc a b"
  by (simp add: arp_request_frame_def)

lemma arp_open_result:
  assumes "arp_open i w = Inr (d, w1)" and "d \<noteq> -1"
    and "get_iface w i = Some ifc" and "if_data_arp ifc = Some st"
  shows "get_iface w1 i = Some (ifc\<lparr>if_data_arp := Some (st\<lparr>fd := d\<rparr>)\<rparr>) \<and>
         heap w1 = heap w \<and> timeouts w1 = timeouts w \<and> clock w1 = clock w \<and>
         HWADDR_LEN w1 = HWADDR_LEN w \<and> random_script w1 = random_script w"
  using assms
  by (auto simp: arp_open_def bpf_open_def Let_def set_if_data_def emit_def eloop_event_add_def
      split: if_splits dest!: get_iface_SomeD)

lemma arp_probed_step:
  "deref w p = Some s \<Longrightarrow> probed_cb s = Some f \<Longrightarrow> arp_probed p w = Inr (emit (CbProbed p) w)"
  by (simp add: arp_probed_def)

lemma eloop_run_fire:
  "timeouts w = (t, h, a) # ts \<Longrightarrow>
   eloop_run (Suc n) w =
     (case run_handler h a (w\<lparr>clock := t, timeouts := ts\<rparr>) of
        Inl f \<Rightarrow> Inl f
      | Inr w' \<Rightarrow> eloop_run n w')"
  by simp

lemma probe_delay_bounds:
  "PROBE_MIN * NSEC_PER_SEC \<le>
     PROBE_MIN * NSEC_PER_SEC + r mod ((PROBE_MAX - PROBE_MIN) * NSEC_PER_SEC) \<and>
   PROBE_MIN * NSEC_PER_SEC + r mod ((PROBE_MAX - PROBE_MIN) * NSEC_PER_SEC) <
     PROBE_MAX * NSEC_PER_SEC"
  by (simp add: PROBE_MIN_def PROBE_MAX_def NSEC_PER_SEC_def)


subsection \<open>Probing\<close>

text \<open>
  The probe schedule. For a live session on an interface with a context whose hardware
  address fits (as the type of \<^verbatim>\<open>hwaddr\<close> requires), when the transport opens
  (\<^verbatim>\<open>arp_open\<close> returns a descriptor \<open>d\<close>) and no timer is pending: \<^verbatim>\<open>arp_probe\<close> installs
  the filter, resets the counter and sends the first probe at the current time
  \<open>clock w\<close>; the next two timers send the second probe \<open>d1\<close> later and the third \<open>d2\<close>
  after that, with both delays in \<open>[PROBE_MIN, PROBE_MAX)\<close> seconds, and leave exactly one
  timer, \<^verbatim>\<open>arp_probed\<close>, due \<open>ANNOUNCE_WAIT\<close> seconds after the third send. Every probe is the
  request frame with sender IP \<open>0.0.0.0\<close> and the session's address as target IP. When
  that last timer fires, a session with a probed callback has it called, once, and no
  timer is left; for a session without one the call goes through the null pointer.
\<close>

theorem arp_probe_schedule:
  assumes s: "deref w p = Some s"
    and ifc: "get_iface w (iface s) = Some ifc" and st: "if_data_arp ifc = Some st"
    and hw: "hwlen ifc \<le> HWADDR_LEN w"
    and idle: "timeouts w = []"
    and opens: "arp_open (iface s) w = Inr (d, w1)" "d \<noteq> -1"
    and fuel: "3 \<le> n"
  shows "\<exists>wp w2 d1 d2.
      arp_probe p w = Inr wp \<and>
      map_option probes (deref wp p) = Some 1 \<and>
      trace wp = trace w1 @
        [(clock w, BpfArp (iface s) d),
         (clock w, BpfSend (iface s) d ETHERTYPE_ARP (arp_request_frame ifc zero_addr (addr s)))] \<and>
      eloop_run 2 wp = Inr w2 \<and>
      PROBE_MIN * NSEC_PER_SEC \<le> d1 \<and> d1 < PROBE_MAX * NSEC_PER_SEC \<and>
      PROBE_MIN * NSEC_PER_SEC \<le> d2 \<and> d2 < PROBE_MAX * NSEC_PER_SEC \<and>
      trace w2 = trace wp @
        [(clock w + d1,
          BpfSend (iface s) d ETHERTYPE_ARP (arp_request_frame ifc zero_addr (addr s))),
         (clock w + d1 + d2,
          BpfSend (iface s) d ETHERTYPE_ARP (arp_request_frame ifc zero_addr (addr s)))] \<and>
      map_option probes (deref w2 p) = Some PROBE_NUM \<and>
      timeouts w2 = [(clock w + d1 + d2 + ANNOUNCE_WAIT * NSEC_PER_SEC, H_arp_probed, p)] \<and>
      (case probed_cb s of
         None \<Rightarrow> eloop_run n wp = Inl NullDeref
       | Some f \<Rightarrow>
           (\<exists>w'. eloop_run n wp = Inr w' \<and>
              trace w' = trace w2 @
                [(clock w + d1 + d2 + ANNOUNCE_WAIT * NSEC_PER_SEC, CbProbed p)] \<and>
              timeouts w' = []))"
proof -
  let ?send = "BpfSend (iface s) d ETHERTYPE_ARP (arp_request_frame ifc zero_addr (addr s))"
  let ?ifc = "ifc\<lparr>if_data_arp := Some (st\<lparr>fd := d\<rparr>)\<rparr>"
  let ?st = "st\<lparr>fd := d\<rparr>"
  let ?delay = "\<lambda>rs. PROBE_MIN * NSEC_PER_SEC +
                  next_or 0 rs mod ((PROBE_MAX - PROBE_MIN) * NSEC_PER_SEC)"
  from arp_open_result [OF opens ifc st]
  have o: "get_iface w1 (iface s) = Some ?ifc" "heap w1 = heap w" "timeouts w1 = timeouts w"
    "clock w1 = clock w" "HWADDR_LEN w1 = HWADDR_LEN w"
    by auto
  from deref_SomeD [OF s] have p: "p < length (heap w)" "heap w ! p = Some s" by auto
  \<comment> \<open>the call itself: filter, counter reset, first probe\<close>
  let ?w0 = "store p (s\<lparr>probes := 0\<rparr>) (bpf_arp (iface s) d w1)"
  have w0: "deref ?w0 p = Some (s\<lparr>probes := 0\<rparr>)" "get_iface ?w0 (iface s) = Some ?ifc"
    "HWADDR_LEN ?w0 = HWADDR_LEN w" "timeouts ?w0 = []" "clock ?w0 = clock w"
    "trace ?w0 = trace w1 @ [(clock w, BpfArp (iface s) d)]"
    using o s idle deref_heap_cong [of "bpf_arp (iface s) d w1" w] p
    by (simp_all add: store_def bpf_arp_def emit_def)
  have probe: "arp_probe p w = arp_probe1 p ?w0"
    using s opens o by (simp add: arp_probe_def)
  from arp_probe1_step [OF w0(1), of ?ifc ?st] w0 hw
  obtain wa where wa: "arp_probe1 p ?w0 = Inr wa"
    "deref wa p = Some (s\<lparr>probes := 1\<rparr>)" "ifaces wa = ifaces ?w0" "HWADDR_LEN wa = HWADDR_LEN w"
    "clock wa = clock w" "trace wa = trace ?w0 @ [(clock w, ?send)]"
    "timeouts wa = [(clock w + ?delay (random_script ?w0), H_arp_probe1, p)]"
    by (auto simp: PROBE_NUM_def)
  \<comment> \<open>first timer: the second probe\<close>
  define d1 where "d1 = ?delay (random_script ?w0)"
  let ?wa = "wa\<lparr>clock := clock w + d1, timeouts := []\<rparr>"
  have wa': "deref ?wa p = Some (s\<lparr>probes := 1\<rparr>)" "get_iface ?wa (iface s) = Some ?ifc"
    "HWADDR_LEN ?wa = HWADDR_LEN w"
    using wa w0 get_iface_ifaces_cong [of wa ?w0] by simp_all
  from arp_probe1_step [OF wa'(1), of ?ifc ?st] wa' hw
  obtain wb where wb: "arp_probe1 p ?wa = Inr wb"
    "deref wb p = Some (s\<lparr>probes := 2\<rparr>)" "ifaces wb = ifaces ?wa" "HWADDR_LEN wb = HWADDR_LEN w"
    "clock wb = clock w + d1" "trace wb = trace wa @ [(clock w + d1, ?send)]"
    "timeouts wb = [(clock w + d1 + ?delay (random_script ?wa), H_arp_probe1, p)]"
    by (auto simp: PROBE_NUM_def)
  \<comment> \<open>second timer: the third probe, which schedules the callback\<close>
  define d2 where "d2 = ?delay (random_script ?wa)"
  let ?wb = "wb\<lparr>clock := clock w + d1 + d2, timeouts := []\<rparr>"
  have wb': "deref ?wb p = Some (s\<lparr>probes := 2\<rparr>)" "get_iface ?wb (iface s) = Some ?ifc"
    "HWADDR_LEN ?wb = HWADDR_LEN w"
    using wb wa' get_iface_ifaces_cong [of wb ?wa] by simp_all
  let ?t3 = "clock w + d1 + d2 + ANNOUNCE_WAIT * NSEC_PER_SEC"
  from arp_probe1_step [OF wb'(1), of ?ifc ?st] wb' hw
  obtain wc where wc: "arp_probe1 p ?wb = Inr wc"
    "deref wc p = Some (s\<lparr>probes := 3\<rparr>)"
    "clock wc = clock w + d1 + d2" "trace wc = trace wb @ [(clock w + d1 + d2, ?send)]"
    "timeouts wc = [(?t3, H_arp_probed, p)]"
    by (auto simp: PROBE_NUM_def)
  have run2: "eloop_run 2 wa = Inr wc"
    using wa wb wc by (simp add: numeral_2_eq_2 run_handler_def d1_def d2_def)
  \<comment> \<open>third timer: the callback\<close>
  let ?wc = "wc\<lparr>clock := ?t3, timeouts := []\<rparr>"
  have wc': "deref ?wc p = Some (s\<lparr>probes := 3\<rparr>)"
    using wc by simp
  from fuel obtain m where n: "n = Suc (Suc (Suc m))"
    by (metis Suc_le_D numeral_3_eq_3 Suc_le_mono)
  have run3: "eloop_run n wa = (case arp_probed p ?wc of Inl f \<Rightarrow> Inl f | Inr w' \<Rightarrow> eloop_run m w')"
    using wa wb wc by (simp add: n run_handler_def d1_def d2_def)
  have last: "case probed_cb s of
         None \<Rightarrow> eloop_run n wa = Inl NullDeref
       | Some f \<Rightarrow>
           (\<exists>w'. eloop_run n wa = Inr w' \<and> trace w' = trace wc @ [(?t3, CbProbed p)] \<and>
              timeouts w' = [])"
  proof (cases "probed_cb s")
    case None
    with wc' show ?thesis
      by (simp add: run3 arp_probed_def)
  next
    case (Some f)
    have "arp_probed p ?wc = Inr (emit (CbProbed p) ?wc)"
      using wc' Some by (intro arp_probed_step [where s = "s\<lparr>probes := 3\<rparr>"]) simp_all
    with Some show ?thesis
      by (simp add: run3 eloop_run_idle emit_def)
  qed
  have "trace wc = trace wa @ [(clock w + d1, ?send), (clock w + d1 + d2, ?send)]"
    using wb wc by simp
  moreover have "map_option probes (deref wc p) = Some PROBE_NUM"
    using wc by (simp add: PROBE_NUM_def)
  moreover have "PROBE_MIN * NSEC_PER_SEC \<le> d1 \<and> d1 < PROBE_MAX * NSEC_PER_SEC"
    "PROBE_MIN * NSEC_PER_SEC \<le> d2 \<and> d2 < PROBE_MAX * NSEC_PER_SEC"
    unfolding d1_def d2_def by (rule probe_delay_bounds)+
  moreover have "trace wa = trace w1 @ [(clock w, BpfArp (iface s) d), (clock w, ?send)]"
    using wa w0 by simp
  ultimately show ?thesis
    using probe wa run2 wc(5) last
    by (intro exI [of _ wa] exI [of _ wc] exI [of _ d1] exI [of _ d2]) simp
qed

theorem arp_probe_schedule_witness:
  "\<exists>w1 wp w2 w' d1 d2.
     (let w = (ex_world (Some \<lparr>fd = -1, arp_states = [0]\<rparr>) [Some (ex_session ex_addr_a None)])
              \<lparr>bpf_open_script := [3], random_script := [1500000000, 999999999]\<rparr>;
          probe = BpfSend 0 3 ETHERTYPE_ARP
                    (arp_request_frame (ex_iface None) zero_addr ex_addr_a)
      in deref w 0 = Some (ex_session ex_addr_a None) \<and>
         get_iface w 0 = Some (ex_iface (Some \<lparr>fd = -1, arp_states = [0]\<rparr>)) \<and>
         timeouts w = [] \<and>
         arp_open 0 w = Inr (3, w1) \<and>
         arp_probe 0 w = Inr wp \<and> eloop_run 2 wp = Inr w2 \<and> eloop_run 3 wp = Inr w' \<and>
         map_option probes (deref wp 0) = Some 1 \<and>
         1000000000 \<le> d1 \<and> d1 < 2000000000 \<and> 1000000000 \<le> d2 \<and> d2 < 2000000000 \<and>
         trace w2 = trace w1 @ [(0, BpfArp 0 3), (0, probe), (d1, probe), (d1 + d2, probe)] \<and>
         timeouts w2 = [(d1 + d2 + 2000000000, H_arp_probed, 0)] \<and>
         trace w' = trace w2 @ [(d1 + d2 + 2000000000, CbProbed 0)] \<and>
         timeouts w' = [])"
proof -
  let ?st = "\<lparr>fd = -1, arp_states = [0]\<rparr>"
  let ?w = "(ex_world (Some ?st) [Some (ex_session ex_addr_a None)])
              \<lparr>bpf_open_script := [3], random_script := [1500000000, 999999999]\<rparr>"
  let ?probe = "BpfSend 0 3 ETHERTYPE_ARP (arp_request_frame (ex_iface None) zero_addr ex_addr_a)"
  have h: "deref ?w 0 = Some (ex_session ex_addr_a None)"
    "get_iface ?w (iface (ex_session ex_addr_a None)) = Some (ex_iface (Some ?st))"
    "if_data_arp (ex_iface (Some ?st)) = Some ?st"
    "hwlen (ex_iface (Some ?st)) \<le> HWADDR_LEN ?w"
    "timeouts ?w = []"
    by (simp_all add: ex_defs deref_def get_iface_def)
  have "\<exists>w1. arp_open (iface (ex_session ex_addr_a None)) ?w = Inr (3, w1)"
    by (simp add: arp_open_def bpf_open_def next_or_def get_iface_def Let_def ex_defs)
  then obtain w1 where o: "arp_open (iface (ex_session ex_addr_a None)) ?w = Inr (3, w1)"
    by blast
  have i: "iface (ex_session ex_addr_a None) = 0" "addr (ex_session ex_addr_a None) = ex_addr_a"
    "arp_request_frame (ex_iface (Some ?st)) zero_addr ex_addr_a =
     arp_request_frame (ex_iface None) zero_addr ex_addr_a"
    "probed_cb (ex_session ex_addr_a None) = Some 1"
    by (simp_all add: ex_defs arp_request_frame_def)
  have c: "PROBE_MIN * NSEC_PER_SEC = 1000000000" "PROBE_MAX * NSEC_PER_SEC = 2000000000"
    "ANNOUNCE_WAIT * NSEC_PER_SEC = 2000000000" "PROBE_NUM = 3" "clock ?w = 0"
    by (simp_all add: PROBE_MIN_def PROBE_MAX_def ANNOUNCE_WAIT_def NSEC_PER_SEC_def
        PROBE_NUM_def ex_defs)
  from arp_probe_schedule [OF h o, of 3] obtain wp w2 w' d1 d2 where
    r: "arp_probe 0 ?w = Inr wp" "map_option probes (deref wp 0) = Some 1"
       "trace wp = trace w1 @ [(0, BpfArp 0 3), (0, ?probe)]"
       "eloop_run 2 wp = Inr w2"
       "1000000000 \<le> d1" "d1 < 2000000000" "1000000000 \<le> d2" "d2 < 2000000000"
       "trace w2 = trace wp @ [(d1, ?probe), (d1 + d2, ?probe)]"
       "timeouts w2 = [(d1 + d2 + 2000000000, H_arp_probed, 0)]"
       "eloop_run 3 wp = Inr w'"
       "trace w' = trace w2 @ [(d1 + d2 + 2000000000, CbProbed 0)]" "timeouts w' = []"
    unfolding i c by (auto simp: i)
  show ?thesis
    unfolding Let_def
    apply (rule exI [of _ w1], rule exI [of _ wp], rule exI [of _ w2], rule exI [of _ w'])
    apply (rule exI [of _ d1], rule exI [of _ d2])
    using h(1,2,5) o r unfolding i by simp
qed

lemmas run_defs = arp_probe_def arp_probe1_def arp_probed_def arp_announce_def arp_announce1_def
  arp_announced_def arp_open_def arp_request_def run_handler_def bpf_open_def bpf_send_def
  arc4random_uniform_def timespecnorm_def eloop_timeout_add_tv_def eloop_timeout_add_sec_def
  eloop_timeout_add_def APPEND_def ZERO_def ARP_LEN_def sizeof_arphdr_def next_or_def
  PROBE_MIN_def PROBE_MAX_def PROBE_NUM_def ANNOUNCE_NUM_def ANNOUNCE_WAIT_def NSEC_PER_SEC_def

text \<open>
  C2. The failing input: a session whose probed callback is not set (the state
  \<^verbatim>\<open>arp_new\<close> leaves it in), on which \<^verbatim>\<open>arp_probe\<close> is called. The transport opens, the
  three probes go out one second apart (the random script is empty), \<^verbatim>\<open>arp_probed\<close> is
  the one timer left, and when it fires it calls through the null pointer: no probed
  callback fires.
\<close>

theorem arp_probe_without_probed_cb:
  "(let w = (ex_world (Some \<lparr>fd = -1, arp_states = [0]\<rparr>)
               [Some ((ex_session ex_addr_a None)\<lparr>probed_cb := None\<rparr>)])
              \<lparr>bpf_open_script := [3]\<rparr>
    in \<exists>w1 wp w2. arp_open 0 w = Inr (3, w1) \<and> arp_probe 0 w = Inr wp \<and>
         eloop_run 2 wp = Inr w2 \<and>
         map fst (trace w2) = map fst (trace w1) @ [0, 0, 1000000000, 2000000000] \<and>
         timeouts w2 = [(4000000000, H_arp_probed, 0)] \<and>
         eloop_run 3 wp = Inl NullDeref)"
  by (simp add: run_defs store_defs ex_defs Let_def numeral_2_eq_2 numeral_3_eq_3)

subsection \<open>Announcing\<close>









subsection \<open>Decoding a frame\<close>

lemma from_self_log:
  "x \<in> set (snd (from_self data h ifs log)) \<Longrightarrow> x \<in> set log \<or> x = (sizeof_arphdr, h)"
proof (induction ifs arbitrary: log)
  case Nil
  then show ?case by simp
next
  case (Cons ifn ifs)
  show ?case
  proof (cases "h = hwlen ifn")
    case False
    with Cons.prems have "x \<in> set (snd (from_self data h ifs log))" by simp
    then show ?thesis by (rule Cons.IH)
  next
    case True
    show ?thesis
    proof (cases "rd data sizeof_arphdr (hwlen ifn) = take (hwlen ifn) (hwaddr ifn)")
      case True
      with Cons.prems \<open>h = hwlen ifn\<close> show ?thesis by auto
    next
      case False
      with Cons.prems \<open>h = hwlen ifn\<close>
      have "x \<in> set (snd (from_self data h ifs (log @ [(sizeof_arphdr, h)])))" by simp
      from Cons.IH [OF this] show ?thesis by auto
    qed
  qed
qed

lemma from_self_found:
  "ifn \<in> set ifs \<Longrightarrow> hwlen ifn = h \<Longrightarrow>
   rd data sizeof_arphdr (hwlen ifn) = take (hwlen ifn) (hwaddr ifn) \<Longrightarrow>
   fst (from_self data h ifs log) = True"
  by (induction ifs arbitrary: log) auto

lemma memcpy_into_cases:
  "memcpy_into dst src cap = Inl DestOverflow \<or> (\<exists>b. memcpy_into dst src cap = Inr b)"
  by (simp add: memcpy_into_def)

lemma arp_packet_copy_log:
  "set (fst (arp_packet_copy w arm0 data h pl log)) \<subseteq> set log \<union>
     {(sizeof_arphdr, h), (sizeof_arphdr + h, pl), (sizeof_arphdr + h + pl, h),
      (sizeof_arphdr + h + pl + h, pl)}"
  by (auto simp: arp_packet_copy_def Let_def split: sum.splits)

lemma arp_packet_decode_short:
  "length data < sizeof_arphdr \<Longrightarrow> arp_packet_decode w arm0 data = ([], Inr None)"
  by (simp add: arp_packet_decode_def)

lemma arp_packet_decode_truncated:
  "sizeof_arphdr \<le> length data \<Longrightarrow>
   length data < sizeof_arphdr + 2 * (unat (data ! 4) + unat (data ! 5)) \<Longrightarrow>
   arp_packet_decode w arm0 data = ([(0, sizeof_arphdr)], Inr None)"
  by (simp add: arp_packet_decode_def Let_def rd_def sizeof_arphdr_def)

lemma arp_packet_decode_complete:
  assumes "sizeof_arphdr + 2 * (unat (data ! 4) + unat (data ! 5)) \<le> length data"
  shows "arp_packet_decode w arm0 data =
     (case from_self data (unat (data ! 4)) (ifaces w) [(0, sizeof_arphdr)] of
        (True, log2) \<Rightarrow> (log2, Inr None)
      | (False, log2) \<Rightarrow>
          arp_packet_copy w arm0 data (unat (data ! 4)) (unat (data ! 5)) log2)"
  using assms
  by (simp add: arp_packet_decode_def Let_def rd_def sizeof_arphdr_def
      split: prod.splits bool.splits)

lemma arp_packet_decode_log:
  assumes "x \<in> set (fst (arp_packet_decode w arm0 data))"
  shows "fst x + snd x \<le> length data"
proof -
  let ?h = "unat (data ! 4)" and ?p = "unat (data ! 5)"
  consider "length data < sizeof_arphdr"
    | "sizeof_arphdr \<le> length data" "length data < sizeof_arphdr + 2 * (?h + ?p)"
    | "sizeof_arphdr + 2 * (?h + ?p) \<le> length data"
    by linarith
  then show ?thesis
  proof cases
    case 1
    with assms show ?thesis by (simp add: arp_packet_decode_short)
  next
    case 2
    with assms show ?thesis by (simp add: arp_packet_decode_truncated)
  next
    case 3
    obtain b log2 where fs: "from_self data ?h (ifaces w) [(0, sizeof_arphdr)] = (b, log2)"
      by (cases "from_self data ?h (ifaces w) [(0, sizeof_arphdr)]")
    have log2: "y = (0, sizeof_arphdr) \<or> y = (sizeof_arphdr, ?h)" if "y \<in> set log2" for y
      using from_self_log [of y data ?h "ifaces w" "[(0, sizeof_arphdr)]"] fs that by auto
    have "x \<in> set log2 \<or> x \<in> {(sizeof_arphdr, ?h), (sizeof_arphdr + ?h, ?p),
            (sizeof_arphdr + ?h + ?p, ?h), (sizeof_arphdr + ?h + ?p + ?h, ?p)}"
      using assms arp_packet_copy_log [of w arm0 data ?h ?p log2] fs
      by (cases b) (auto simp: arp_packet_decode_complete [OF 3])
    with log2 [of x] 3 show ?thesis by auto
  qed
qed

text \<open>
  C1. Whatever the buffer holds, every read of the decoder lies inside it. A buffer
  shorter than the 8-byte header is rejected with no read at all. When the header is
  there and 8 + 2 * (hardware length + protocol length), with the two lengths as the
  header's bytes 4 and 5 give them, exceeds the buffer's length, the frame is rejected
  when only the header has been read, before any field is compared or copied. Either
  way \<^verbatim>\<open>arp_packet\<close> leaves the state as it was.
\<close>

theorem arp_packet_decode_bounds:
  "(\<forall>x \<in> set (fst (arp_packet_decode w arm0 data)). fst x + snd x \<le> length data) \<and>
   (length data < sizeof_arphdr \<longrightarrow>
      arp_packet_decode w arm0 data = ([], Inr None) \<and> arp_packet arm0 ifp data w = Inr w) \<and>
   (sizeof_arphdr \<le> length data \<and>
    length data < sizeof_arphdr + 2 * (unat (data ! 4) + unat (data ! 5)) \<longrightarrow>
      arp_packet_decode w arm0 data = ([(0, sizeof_arphdr)], Inr None) \<and>
      arp_packet arm0 ifp data w = Inr w)"
proof (intro conjI ballI impI)
  fix x
  assume "x \<in> set (fst (arp_packet_decode w arm0 data))"
  then show "fst x + snd x \<le> length data"
    by (rule arp_packet_decode_log)
next
  assume "length data < sizeof_arphdr"
  then show "arp_packet_decode w arm0 data = ([], Inr None)"
    and "arp_packet arm0 ifp data w = Inr w"
    by (simp_all add: arp_packet_decode_short arp_packet_def)
next
  assume "sizeof_arphdr \<le> length data \<and>
    length data < sizeof_arphdr + 2 * (unat (data ! 4) + unat (data ! 5))"
  then show "arp_packet_decode w arm0 data = ([(0, sizeof_arphdr)], Inr None)"
    and "arp_packet arm0 ifp data w = Inr w"
    by (simp_all add: arp_packet_decode_truncated arp_packet_def)
qed

theorem arp_packet_decode_bounds_witness:
  "(let data = [0, 1, 8, 0, 255, 4, 0, 1];
        w = ex_world (Some \<lparr>fd = 3, arp_states = [0]\<rparr>) [Some (ex_session ex_addr_a None)]
    in length data = 8 \<and> unat (data ! 4) = 255 \<and>
       arp_packet_decode w ex_arm0 data = ([(0, 8)], Inr None) \<and>
       arp_packet ex_arm0 0 data w = Inr w \<and>
       arp_packet_decode w ex_arm0 (take 7 data) = ([], Inr None) \<and>
       arp_packet ex_arm0 0 (take 7 data) w = Inr w)"
  using arp_packet_decode_bounds
    [of "ex_world (Some \<lparr>fd = 3, arp_states = [0]\<rparr>) [Some (ex_session ex_addr_a None)]"
      ex_arm0 "[0, 1, 8, 0, 255, 4, 0, 1]" 0]
    arp_packet_decode_bounds
    [of "ex_world (Some \<lparr>fd = 3, arp_states = [0]\<rparr>) [Some (ex_session ex_addr_a None)]"
      ex_arm0 "take 7 [0, 1, 8, 0, 255, 4, 0, 1]" 0]
  by (simp add: sizeof_arphdr_def Let_def)

text \<open>
  C9. A frame whose hardware length (byte 4 of the header) is the hardware length of one
  of the local interfaces, and whose sender hardware address (the bytes after the
  header) is that interface's hardware address, is dropped: the decoder yields no
  message and \<^verbatim>\<open>arp_packet\<close> returns with the state unchanged, so that no callback of
  any session has been called.
\<close>

theorem arp_packet_ignores_self:
  assumes "ifn \<in> set (ifaces w)" and "hwlen ifn = unat (data ! 4)"
    and "rd data sizeof_arphdr (hwlen ifn) = take (hwlen ifn) (hwaddr ifn)"
  shows "snd (arp_packet_decode w arm0 data) = Inr None \<and> arp_packet arm0 ifp data w = Inr w"
proof -
  let ?h = "unat (data ! 4)" and ?p = "unat (data ! 5)"
  have "snd (arp_packet_decode w arm0 data) = Inr None"
  proof (cases "sizeof_arphdr + 2 * (?h + ?p) \<le> length data")
    case True
    from from_self_found [OF assms(1) assms(2) assms(3), of "[(0, sizeof_arphdr)]"]
    show ?thesis
      by (auto simp: arp_packet_decode_complete [OF True] split: prod.splits bool.splits)
  next
    case False
    then show ?thesis
      by (cases "length data < sizeof_arphdr")
        (simp_all add: arp_packet_decode_short arp_packet_decode_truncated)
  qed
  then show ?thesis
    by (simp add: arp_packet_def)
qed

theorem arp_packet_ignores_self_witness:
  "(let data = [0, 1, 8, 0, 6, 4, 0, 1] @ [2, 0, 0, 0, 0, 1] @ ex_addr_a @ replicate 6 0 @ ex_addr_a;
        ctx = Some \<lparr>fd = 3, arp_states = [0]\<rparr>;
        w = ex_world ctx [Some (ex_session ex_addr_a (Some (Conflicted_fn [])))]
    in ex_iface ctx \<in> set (ifaces w) \<and> hwlen (ex_iface ctx) = unat (data ! 4) \<and>
       rd data sizeof_arphdr (hwlen (ex_iface ctx)) =
         take (hwlen (ex_iface ctx)) (hwaddr (ex_iface ctx)) \<and>
       arp_packet ex_arm0 0 data w = Inr w)"
proof -
  let ?data = "[0, 1, 8, 0, 6, 4, 0, 1] @ [2, 0, 0, 0, 0, 1] @ ex_addr_a @ replicate 6 0 @ ex_addr_a"
  let ?ctx = "Some \<lparr>fd = 3, arp_states = [0]\<rparr>"
  let ?w = "ex_world ?ctx [Some (ex_session ex_addr_a (Some (Conflicted_fn [])))]"
  have h: "ex_iface ?ctx \<in> set (ifaces ?w)" "hwlen (ex_iface ?ctx) = unat (?data ! 4)"
    "rd ?data sizeof_arphdr (hwlen (ex_iface ?ctx)) =
       take (hwlen (ex_iface ?ctx)) (hwaddr (ex_iface ?ctx))"
    by (simp_all add: ex_defs rd_def sizeof_arphdr_def)
  from arp_packet_ignores_self [OF h, of ex_arm0 0] h show ?thesis
    by (simp add: Let_def)
qed

subsection \<open>Well-formed states and freeing\<close>

lemma sessions_of_out_of_range: "\<not> i < length (ifaces w) \<Longrightarrow> sessions_of w i = []"
  by (simp add: sessions_of_def get_iface_def)

lemma wf_worldD:
  assumes "wf_world w"
  shows "distinct (sessions_of w i)"
    and "p \<in> set (sessions_of w i) \<Longrightarrow> \<exists>s. deref w p = Some s \<and> iface s = i"
    and "deref w p = Some s \<Longrightarrow> p \<in> set (sessions_of w (iface s))"
proof -
  show "distinct (sessions_of w i)"
    using assms by (cases "i < length (ifaces w)")
      (auto simp: wf_world_def list_all_iff sessions_of_out_of_range)
  show "\<exists>s. deref w p = Some s \<and> iface s = i" if "p \<in> set (sessions_of w i)"
  proof -
    from that have "i < length (ifaces w)"
      by (rule_tac ccontr) (simp add: sessions_of_out_of_range)
    with assms that show ?thesis
      by (fastforce simp: wf_world_def list_all_iff split: option.splits)
  qed
  show "p \<in> set (sessions_of w (iface s))" if "deref w p = Some s"
  proof -
    from that have "p < length (heap w)" by (simp add: deref_SomeD)
    with assms that show ?thesis
      by (auto simp: wf_world_def list_all_iff split: option.splits)
  qed
qed

lemma wf_worldI:
  assumes "\<And>i. distinct (sessions_of w i)"
    and "\<And>i p. p \<in> set (sessions_of w i) \<Longrightarrow> \<exists>s. deref w p = Some s \<and> iface s = i"
    and "\<And>p s. deref w p = Some s \<Longrightarrow> p \<in> set (sessions_of w (iface s))"
  shows "wf_world w"
  unfolding wf_world_def list_all_iff
proof (intro conjI ballI)
  fix i assume "i \<in> set [0..<length (ifaces w)]"
  show "distinct (sessions_of w i)" by (rule assms(1))
next
  fix i p assume "p \<in> set (sessions_of w i)"
  from assms(2) [OF this] show "case deref w p of None \<Rightarrow> False | Some s \<Rightarrow> iface s = i"
    by auto
next
  fix p assume "p \<in> set [0..<length (heap w)]"
  show "case deref w p of None \<Rightarrow> True | Some s \<Rightarrow> p \<in> set (sessions_of w (iface s))"
    using assms(3) [of p] by (auto split: option.splits)
qed

lemma wf_world_cong:
  "ifaces w' = ifaces w \<Longrightarrow> heap w' = heap w \<Longrightarrow> wf_world w' = wf_world w"
  using sessions_of_ifaces_cong [of w' w] deref_heap_cong [of w' w]
  by (auto simp: wf_world_def list_all_iff split: option.splits)

text \<open>What \<^verbatim>\<open>arp_free\<close> does to a live session of a well-formed state.\<close>

lemma arp_free_dead: "deref w q = None \<Longrightarrow> arp_free (Some q) w = Inl UseAfterFree"
  by (simp add: arp_free_def)

lemma conflicted_calls_append [simp]:
  "conflicted_calls (xs @ ys) = conflicted_calls xs @ conflicted_calls ys"
  by (induction xs rule: conflicted_calls.induct) simp_all

lemma arp_free_live:
  assumes wf: "wf_world w" and s: "deref w q = Some s"
  shows "\<exists>w'. arp_free (Some q) w = Inr w' \<and>
           (\<forall>p. deref w' p = (if p = q then None else deref w p)) \<and>
           (\<forall>i. sessions_of w' i = filter (\<lambda>p. p \<noteq> q) (sessions_of w i)) \<and>
           conflicted_calls (trace w') = conflicted_calls (trace w)"
proof -
  from wf_worldD(3) [OF wf s] have q: "q \<in> set (sessions_of w (iface s))" .
  then obtain ifc where ifc1: "get_iface w (iface s) = Some ifc"
    by (cases "get_iface w (iface s)") (auto simp: sessions_of_def)
  with q obtain st where ifc2: "if_data_arp ifc = Some st"
    by (cases "if_data_arp ifc") (auto simp: sessions_of_def)
  note ifc = ifc1 ifc2
  have ss: "sessions_of w (iface s) = arp_states st"
    using ifc by (simp add: sessions_of_def)
  from get_iface_SomeD [OF ifc(1)] have i: "iface s < length (ifaces w)" "ifaces w ! iface s = ifc"
    by auto
  have d: "distinct (arp_states st)"
    using wf_worldD(1) [OF wf, of "iface s"] ss by simp
  then have rm: "remove1 q (arp_states st) = filter (\<lambda>p. p \<noteq> q) (arp_states st)"
    by (simp add: distinct_remove1_removeAll removeAll_filter_not_eq) (metis)
  have other: "q \<notin> set (sessions_of w j)" if "j \<noteq> iface s" for j
    using wf_worldD(2) [OF wf, of q j] s that by auto
  then have other': "filter (\<lambda>p. p \<noteq> q) (sessions_of w j) = sessions_of w j" if "j \<noteq> iface s" for j
    using that by (auto simp: filter_id_conv)
  show ?thesis
    using s ifc i rm ss other'
    by (auto simp: arp_free_def arp_close_def Let_def)
qed

lemma arp_free_wf:
  assumes wf: "wf_world w" and s: "deref w q = Some s" and r: "arp_free (Some q) w = Inr w'"
  shows "wf_world w'"
proof -
  from arp_free_live [OF wf s] r
  have d: "\<And>p. deref w' p = (if p = q then None else deref w p)"
    and l: "\<And>i. sessions_of w' i = filter (\<lambda>p. p \<noteq> q) (sessions_of w i)"
    by auto
  show ?thesis
  proof (rule wf_worldI)
    fix i show "distinct (sessions_of w' i)"
      using wf_worldD(1) [OF wf, of i] by (simp add: l)
  next
    fix i p assume "p \<in> set (sessions_of w' i)"
    then show "\<exists>s. deref w' p = Some s \<and> iface s = i"
      using wf_worldD(2) [OF wf, of p i] by (auto simp: l d)
  next
    fix p t assume "deref w' p = Some t"
    then show "p \<in> set (sessions_of w' (iface t))"
      using wf_worldD(3) [OF wf, of p t] by (auto simp: l d split: if_splits)
  qed
qed

lemma shrinks_refl:
  assumes "wf_world w"
  shows "shrinks w w"
proof -
  have "\<forall>p\<in>set (sessions_of w i). live w p" for i
    using wf_worldD(2) [OF assms, of _ i] by (auto simp: live_def)
  then show ?thesis
    by (simp add: shrinks_def)
qed

lemma shrinks_trans: "shrinks w w1 \<Longrightarrow> shrinks w1 w2 \<Longrightarrow> shrinks w w2"
  unfolding shrinks_def live_def
proof (intro conjI allI impI)
  fix p assume a: "(\<forall>p. deref w1 p \<noteq> None \<longrightarrow> deref w1 p = deref w p) \<and>
      (\<forall>i. sessions_of w1 i = filter (\<lambda>p. deref w1 p \<noteq> None) (sessions_of w i))"
    and b: "(\<forall>p. deref w2 p \<noteq> None \<longrightarrow> deref w2 p = deref w1 p) \<and>
      (\<forall>i. sessions_of w2 i = filter (\<lambda>p. deref w2 p \<noteq> None) (sessions_of w1 i))"
    and c: "deref w2 p \<noteq> None"
  then show "deref w2 p = deref w p" by metis
next
  fix i assume a: "(\<forall>p. deref w1 p \<noteq> None \<longrightarrow> deref w1 p = deref w p) \<and>
      (\<forall>i. sessions_of w1 i = filter (\<lambda>p. deref w1 p \<noteq> None) (sessions_of w i))"
    and b: "(\<forall>p. deref w2 p \<noteq> None \<longrightarrow> deref w2 p = deref w1 p) \<and>
      (\<forall>i. sessions_of w2 i = filter (\<lambda>p. deref w2 p \<noteq> None) (sessions_of w1 i))"
  have "sessions_of w2 i = filter (\<lambda>p. deref w2 p \<noteq> None)
          (filter (\<lambda>p. deref w1 p \<noteq> None) (sessions_of w i))"
    using a b by simp
  also have "\<dots> = filter (\<lambda>p. deref w2 p \<noteq> None) (sessions_of w i)"
    using b by (auto intro!: filter_cong)
  finally show "sessions_of w2 i = filter (\<lambda>p. deref w2 p \<noteq> None) (sessions_of w i)" .
qed

lemma arp_free_shrinks:
  assumes wf: "wf_world w" and r: "arp_free (Some q) w = Inr w'"
  shows "shrinks w w' \<and> wf_world w' \<and> conflicted_calls (trace w') = conflicted_calls (trace w)"
proof -
  from r obtain s where s: "deref w q = Some s"
    by (cases "deref w q") (simp_all add: arp_free_dead)
  from arp_free_live [OF wf s] r
  have d: "\<And>p. deref w' p = (if p = q then None else deref w p)"
    and l: "\<And>i. sessions_of w' i = filter (\<lambda>p. p \<noteq> q) (sessions_of w i)"
    and c: "conflicted_calls (trace w') = conflicted_calls (trace w)"
    by auto
  have "sessions_of w' i = filter (live w') (sessions_of w i)" for i
    unfolding l live_def using wf_worldD(2) [OF wf, of _ i]
    by (auto intro!: filter_cong simp: d)
  then have "shrinks w w'"
    by (simp add: shrinks_def live_def d)
  with arp_free_wf [OF wf s r] c show ?thesis by simp
qed

lemma owner_frees_shrinks:
  "wf_world w \<Longrightarrow> owner_frees qs w = Inr w' \<Longrightarrow>
   shrinks w w' \<and> wf_world w' \<and> conflicted_calls (trace w') = conflicted_calls (trace w)"
proof (induction qs arbitrary: w)
  case Nil
  then show ?case by (simp add: shrinks_refl)
next
  case (Cons q qs)
  from Cons.prems(2) obtain w1 where w1: "arp_free (Some q) w = Inr w1"
    and rest: "owner_frees qs w1 = Inr w'"
    by (auto split: sum.splits)
  from arp_free_shrinks [OF Cons.prems(1) w1] Cons.IH [OF _ rest]
  show ?case by (auto intro: shrinks_trans)
qed

lemma wf_world_emit [simp]: "wf_world (emit e w) = wf_world w"
  by (rule wf_world_cong) simp_all

lemma shrinks_emit: "shrinks (emit e w) w' = shrinks w w'"
  by (simp add: shrinks_def)

lemma call_conflicted_shrinks:
  assumes "wf_world w" and "call_conflicted cb p arm w = Inr w'"
  shows "shrinks w w' \<and> wf_world w' \<and>
         conflicted_calls (trace w') = conflicted_calls (trace w) @ [(p, arm)]"
  using owner_frees_shrinks [of "emit (CbConflicted p arm) w" "frees cb" w'] assms
  by (simp add: call_conflicted_def shrinks_emit)

subsection \<open>Walking a queue\<close>

lemma next_in_dropWhile: "next_in q p = TAILQ_FIRST (tl (dropWhile (\<lambda>x. x \<noteq> p) q))"
  by (induction q) (simp_all add: TAILQ_FIRST_def)

lemma dropWhile_neq_Cons:
  "p \<in> set q \<Longrightarrow> \<exists>post. dropWhile (\<lambda>x. x \<noteq> p) q = p # post"
  by (induction q) auto

lemma dropWhile_neq_notin: "p \<notin> set q \<Longrightarrow> dropWhile (\<lambda>x. x \<noteq> p) q = []"
  by (induction q) auto

lemma dropWhile_neq_filter:
  "P n \<Longrightarrow> dropWhile (\<lambda>x. x \<noteq> n) (filter P q) = filter P (dropWhile (\<lambda>x. x \<noteq> n) q)"
  by (induction q) auto

lemma from_cur_next:
  assumes "distinct q" and "dropWhile (\<lambda>x. x \<noteq> p) q = p # post"
  shows "from_cur q (TAILQ_FIRST post) = post"
proof (cases post)
  case Nil
  then show ?thesis by (simp add: from_cur_def TAILQ_FIRST_def)
next
  case (Cons n r)
  have q: "q = takeWhile (\<lambda>x. x \<noteq> p) q @ p # n # r"
    using assms(2) Cons takeWhile_dropWhile_id [of "\<lambda>x. x \<noteq> p" q] by simp
  then have "distinct (takeWhile (\<lambda>x. x \<noteq> p) q @ p # n # r)"
    using assms(1) by simp
  then have "n \<notin> set (takeWhile (\<lambda>x. x \<noteq> p) q)" "n \<noteq> p"
    by auto
  then have "dropWhile (\<lambda>x. x \<noteq> n) (takeWhile (\<lambda>x. x \<noteq> p) q @ p # n # r) = n # r"
    by (simp add: dropWhile_append)
  with q Cons show ?thesis
    by (simp add: from_cur_def TAILQ_FIRST_def)
qed

lemma arp_conflicts_Inr_live: "arp_conflicts n arm (Some q) w = Inr w' \<Longrightarrow> live w q"
  by (cases n) (auto simp: live_def split: option.splits)

subsection \<open>The dispatch loop\<close>

lemma shrinks_matches:
  "shrinks w w1 \<Longrightarrow> matches w1 arm q \<Longrightarrow> matches w arm q"
  "shrinks w w1 \<Longrightarrow> has_conflicted_cb w1 q \<Longrightarrow> has_conflicted_cb w q"
  "shrinks w w1 \<Longrightarrow> live w1 q \<Longrightarrow> matches w arm q \<Longrightarrow> matches w1 arm q"
  "shrinks w w1 \<Longrightarrow> live w1 q \<Longrightarrow> has_conflicted_cb w q \<Longrightarrow> has_conflicted_cb w1 q"
  by (auto simp: shrinks_def matches_def has_conflicted_cb_def live_def split: option.splits)

lemma shrinks_live: "shrinks w w1 \<Longrightarrow> live w1 q \<Longrightarrow> live w q"
  by (auto simp: shrinks_def live_def)

lemma arp_conflicts_sound:
  assumes "wf_world w" and "arp_conflicts n arm cur w = Inr w'"
    and "\<forall>p. cur = Some p \<longrightarrow> live w p \<longrightarrow> p \<in> set (sessions_of w ifp)"
  shows "shrinks w w' \<and> wf_world w' \<and>
         (\<exists>ps. dispatched w arm (from_cur (sessions_of w ifp) cur) w' (sessions_of w' ifp) ps)"
  using assms
proof (induction n arbitrary: cur w)
  case 0
  then show ?case
    by (cases cur) (simp_all add: shrinks_refl dispatched_def from_cur_def)
next
  case (Suc n)
  show ?case
  proof (cases cur)
    case None
    with Suc.prems show ?thesis
      by (simp add: shrinks_refl dispatched_def from_cur_def)
  next
    case (Some p)
    let ?q = "sessions_of w ifp"
    from Suc.prems(2) Some have lp: "live w p"
      by (auto dest: arp_conflicts_Inr_live simp del: arp_conflicts.simps)
    then obtain s where s: "deref w p = Some s"
      by (auto simp: live_def)
    from Suc.prems(3) Some lp have pq: "p \<in> set ?q" by simp
    from wf_worldD(2) [OF Suc.prems(1) pq] s have ifp: "iface s = ifp" by simp
    from dropWhile_neq_Cons [OF pq] obtain post where
      post: "dropWhile (\<lambda>x. x \<noteq> p) ?q = p # post" ..
    have dq: "distinct ?q" by (rule wf_worldD(1) [OF Suc.prems(1)])
    have todo: "from_cur ?q cur = p # post"
      using Some post by (simp add: from_cur_def)
    let ?nx = "TAILQ_FIRST post"
    have nx: "TAILQ_NEXT w s p = ?nx"
      using post ifp by (simp add: TAILQ_NEXT_def next_in_dropWhile)
    have todo': "from_cur ?q ?nx = post"
      by (rule from_cur_next [OF dq post])
    have post_sub: "set post \<subseteq> set ?q"
      using set_dropWhileD [of _ "\<lambda>x. x \<noteq> p" ?q] post by auto
    have p_post: "p \<notin> set post"
      using distinct_dropWhile [OF dq, of "\<lambda>x. x \<noteq> p"] post by simp
    have nx_post: "q \<in> set post" if "?nx = Some q" for q
      using that by (cases post) (simp_all add: TAILQ_FIRST_def)
    show ?thesis
    proof (cases "(sip arm \<noteq> addr s \<and> tip arm \<noteq> addr s) \<or> conflicted_cb s = None")
      case True
      with Suc.prems(2) Some s nx have run: "arp_conflicts n arm ?nx w = Inr w'"
        by (auto simp: Let_def split: option.splits)
      have "\<forall>q. ?nx = Some q \<longrightarrow> live w q \<longrightarrow> q \<in> set ?q"
        using nx_post post_sub by auto
      from Suc.IH [OF Suc.prems(1) run this] todo' obtain ps where
        sh: "shrinks w w'" "wf_world w'" and
        ps: "dispatched w arm post w' (sessions_of w' ifp) ps"
        by auto
      have np: "\<not> (matches w arm p \<and> has_conflicted_cb w p)"
        using True s by (auto simp: matches_def has_conflicted_cb_def)
      have "dispatched w arm (p # post) w' (sessions_of w' ifp) ps"
        using ps np unfolding dispatched_def by auto
      with sh todo show ?thesis by auto
    next
      case False
      then obtain cb where cb: "conflicted_cb s = Some cb"
        and m: "sip arm = addr s \<or> tip arm = addr s"
        by auto
      with Suc.prems(2) Some s nx obtain w1 where
        call: "call_conflicted cb p arm w = Inr w1" and
        run: "arp_conflicts n arm ?nx w1 = Inr w'"
        by (auto simp: Let_def split: sum.splits)
      from call_conflicted_shrinks [OF Suc.prems(1) call]
      have sh1: "shrinks w w1" and wf1: "wf_world w1"
        and c1: "conflicted_calls (trace w1) = conflicted_calls (trace w) @ [(p, arm)]"
        by auto
      have q1: "sessions_of w1 ifp = filter (live w1) ?q"
        using sh1 by (simp add: shrinks_def)
      have inv1: "\<forall>q. ?nx = Some q \<longrightarrow> live w1 q \<longrightarrow> q \<in> set (sessions_of w1 ifp)"
        using nx_post post_sub by (auto simp: q1)
      from Suc.IH [OF wf1 run inv1] obtain ps where
        sh2: "shrinks w1 w'" and wf': "wf_world w'" and
        ps: "dispatched w1 arm (from_cur (sessions_of w1 ifp) ?nx) w' (sessions_of w' ifp) ps"
        by auto
      have todo1: "from_cur (sessions_of w1 ifp) ?nx = filter (live w1) post"
      proof (cases ?nx)
        case None
        then have "post = []" by (cases post) (simp_all add: TAILQ_FIRST_def)
        with None show ?thesis by (simp add: from_cur_def)
      next
        case (Some q)
        with run have "live w1 q" by (auto dest: arp_conflicts_Inr_live)
        then show ?thesis
          using Some todo' by (simp add: from_cur_def q1 dropWhile_neq_filter)
      qed
      have sh: "shrinks w w'" by (rule shrinks_trans [OF sh1 sh2])
      have mp: "matches w arm p" "has_conflicted_cb w p"
        using s cb m by (auto simp: matches_def has_conflicted_cb_def)
      have "dispatched w arm (p # post) w' (sessions_of w' ifp) (p # ps)"
        unfolding dispatched_def
      proof (intro conjI ballI impI)
        show "conflicted_calls (trace w') =
                conflicted_calls (trace w) @ map (\<lambda>p. (p, arm)) (p # ps)"
          using ps c1 by (simp add: dispatched_def)
        show "distinct (p # ps)"
          using ps p_post by (auto simp: dispatched_def todo1)
        show "set (p # ps) \<subseteq> set (p # post)"
          using ps by (auto simp: dispatched_def todo1)
      next
        fix x assume "x \<in> set (p # ps)"
        then show "matches w arm x" "has_conflicted_cb w x"
          using ps mp sh1 by (auto simp: dispatched_def dest: shrinks_matches)
      next
        fix x assume x: "x \<in> set (sessions_of w' ifp)" "x \<in> set (p # post)"
          "matches w arm x" "has_conflicted_cb w x"
        show "x \<in> set (p # ps)"
        proof (cases "x = p")
          case True
          then show ?thesis by simp
        next
          case False
          with x have xp: "x \<in> set post" by simp
          have "live w' x"
            using wf_worldD(2) [OF wf' x(1)] by (auto simp: live_def)
          with sh2 have l1: "live w1 x" by (rule shrinks_live)
          with xp have "x \<in> set (from_cur (sessions_of w1 ifp) ?nx)"
            by (simp add: todo1)
          moreover have "matches w1 arm x" "has_conflicted_cb w1 x"
            using sh1 l1 x by (auto dest: shrinks_matches)
          ultimately have "x \<in> set ps"
            using ps x(1) by (auto simp: dispatched_def)
          then show ?thesis by simp
        qed
      qed
      with sh wf' todo show ?thesis by auto
    qed
  qed
qed

lemma from_cur_first: "from_cur q (TAILQ_FIRST q) = q"
  by (cases q) (simp_all add: from_cur_def TAILQ_FIRST_def)

lemma TAILQ_FIRST_in: "TAILQ_FIRST q = Some p \<Longrightarrow> p \<in> set q"
  by (cases q) (simp_all add: TAILQ_FIRST_def)



subsection \<open>Callbacks that free other sessions\<close>

lemma owner_frees_all:
  assumes "wf_world w" and "distinct qs" and "\<forall>q\<in>set qs. live w q"
  shows "\<exists>w'. owner_frees qs w = Inr w' \<and> wf_world w' \<and>
           (\<forall>x. deref w' x = (if x \<in> set qs then None else deref w x)) \<and>
           (\<forall>i. sessions_of w' i = filter (\<lambda>x. x \<notin> set qs) (sessions_of w i)) \<and>
           conflicted_calls (trace w') = conflicted_calls (trace w)"
  using assms
proof (induction qs arbitrary: w)
  case Nil
  then show ?case by simp
next
  case (Cons q qs)
  from Cons.prems(3) obtain s where s: "deref w q = Some s"
    by (auto simp: live_def)
  from arp_free_live [OF Cons.prems(1) s] obtain w1 where
    w1: "arp_free (Some q) w = Inr w1"
    and d1: "\<forall>p. deref w1 p = (if p = q then None else deref w p)"
    and l1: "\<forall>i. sessions_of w1 i = filter (\<lambda>p. p \<noteq> q) (sessions_of w i)"
    and c1: "conflicted_calls (trace w1) = conflicted_calls (trace w)"
    by blast
  have wf1: "wf_world w1" by (rule arp_free_wf [OF Cons.prems(1) s w1])
  have "distinct qs" "\<forall>x\<in>set qs. live w1 x"
    using Cons.prems(2,3) d1 by (auto simp: live_def)
  from Cons.IH [OF wf1 this] obtain w' where
    w': "owner_frees qs w1 = Inr w'" "wf_world w'"
    and d': "\<forall>x. deref w' x = (if x \<in> set qs then None else deref w1 x)"
    and l': "\<forall>i. sessions_of w' i = filter (\<lambda>x. x \<notin> set qs) (sessions_of w1 i)"
    and c': "conflicted_calls (trace w') = conflicted_calls (trace w1)"
    by blast
  have "\<forall>i. sessions_of w' i = filter (\<lambda>x. x \<notin> set (q # qs)) (sessions_of w i)"
    using l' l1 by (auto intro: filter_cong)
  moreover have "\<forall>x. deref w' x = (if x \<in> set (q # qs) then None else deref w x)"
    using d' d1 by simp
  ultimately show ?case
    using w1 w' c' c1 by simp
qed

lemma notified_filter:
  assumes "\<forall>x\<in>set xs. x \<notin> set fs \<longrightarrow> deref w1 x = deref w x"
    and "set dead' = set fs \<union> set dead"
  shows "notified w1 arm dead (filter (\<lambda>x. x \<notin> set fs) xs) = notified w arm dead' xs"
  using assms
proof (induction xs arbitrary: dead dead')
  case Nil
  then show ?case by simp
next
  case (Cons x xs)
  show ?case
  proof (cases "x \<in> set fs")
    case True
    with Cons.prems have "x \<in> set dead'" by simp
    with True Cons.IH [of dead' dead] Cons.prems show ?thesis by simp
  next
    case False
    with Cons.prems have d: "deref w1 x = deref w x" by simp
    then have e: "matches w1 arm x = matches w arm x"
      "has_conflicted_cb w1 x = has_conflicted_cb w x" "frees_of w1 x = frees_of w x"
      by (simp_all add: matches_def has_conflicted_cb_def frees_of_def)
    have m: "x \<in> set dead \<longleftrightarrow> x \<in> set dead'"
      using False Cons.prems(2) by simp
    have "set (frees_of w x @ dead') = set fs \<union> set (frees_of w x @ dead)"
      using Cons.prems(2) by auto
    from Cons.IH [OF _ this] Cons.IH [OF _ Cons.prems(2)] Cons.prems(1) False e m
    show ?thesis by simp
  qed
qed

lemma arp_conflicts_spared:
  assumes "wf_world w"
    and "\<forall>p. cur = Some p \<longrightarrow> p \<in> set (sessions_of w ifp)"
    and "spares_successor n arm cur w"
    and "length (from_cur (sessions_of w ifp) cur) < n"
  shows "\<exists>w'. arp_conflicts n arm cur w = Inr w' \<and>
           conflicted_calls (trace w') = conflicted_calls (trace w) @
             map (\<lambda>p. (p, arm)) (notified w arm [] (from_cur (sessions_of w ifp) cur))"
  using assms
proof (induction n arbitrary: cur w)
  case 0
  then show ?case by simp
next
  case (Suc n)
  show ?case
  proof (cases cur)
    case None
    then show ?thesis by (simp add: from_cur_def)
  next
    case (Some p)
    let ?q = "sessions_of w ifp"
    from Suc.prems(2) Some have pq: "p \<in> set ?q" by simp
    from wf_worldD(2) [OF Suc.prems(1) pq] obtain s where
      s: "deref w p = Some s" and ifp: "iface s = ifp" by auto
    from dropWhile_neq_Cons [OF pq] obtain post where
      post: "dropWhile (\<lambda>x. x \<noteq> p) ?q = p # post" ..
    have dq: "distinct ?q" by (rule wf_worldD(1) [OF Suc.prems(1)])
    have todo: "from_cur ?q cur = p # post"
      using Some post by (simp add: from_cur_def)
    let ?nx = "TAILQ_FIRST post"
    have nx: "TAILQ_NEXT w s p = ?nx"
      using post ifp by (simp add: TAILQ_NEXT_def next_in_dropWhile)
    have todo': "from_cur ?q ?nx = post"
      by (rule from_cur_next [OF dq post])
    have post_sub: "set post \<subseteq> set ?q"
      using set_dropWhileD [of _ "\<lambda>x. x \<noteq> p" ?q] post by auto
    have nx_post: "q \<in> set post" if "?nx = Some q" for q
      using that by (cases post) (simp_all add: TAILQ_FIRST_def)
    have len: "length post < n"
      using Suc.prems(4) todo by simp
    show ?thesis
    proof (cases "(sip arm \<noteq> addr s \<and> tip arm \<noteq> addr s) \<or> conflicted_cb s = None")
      case True
      then have step: "arp_conflicts (Suc n) arm cur w = arp_conflicts n arm ?nx w"
        using Some s nx by (auto simp: Let_def)
      have sp: "spares_successor n arm ?nx w"
        using Suc.prems(3) True Some s nx by (auto simp: Let_def split: if_splits)
      have np: "\<not> (matches w arm p \<and> has_conflicted_cb w p)"
        using True s by (auto simp: matches_def has_conflicted_cb_def)
      have "\<forall>q. ?nx = Some q \<longrightarrow> q \<in> set ?q"
        using nx_post post_sub by auto
      from Suc.IH [OF Suc.prems(1) this sp] len todo' obtain w' where
        "arp_conflicts n arm ?nx w = Inr w'"
        "conflicted_calls (trace w') = conflicted_calls (trace w) @
           map (\<lambda>p. (p, arm)) (notified w arm [] post)"
        by auto
      with step np todo show ?thesis by auto
    next
      case False
      then obtain cb where cb: "conflicted_cb s = Some cb"
        and m: "sip arm = addr s \<or> tip arm = addr s"
        by auto
      let ?fs = "frees cb"
      let ?w = "emit (CbConflicted p arm) w"
      from Suc.prems(3) Some s nx cb m have
        fs: "distinct ?fs" "\<forall>q\<in>set ?fs. live w q" "?nx \<notin> Some ` set ?fs"
        by (auto simp: Let_def list_all_iff)
      have "\<forall>q\<in>set ?fs. live ?w q"
        using fs(2) by (simp add: live_def)
      from owner_frees_all [OF _ fs(1) this] Suc.prems(1) obtain w1 where
        call: "call_conflicted cb p arm w = Inr w1" and wf1: "wf_world w1"
        and d1: "\<forall>x. deref w1 x = (if x \<in> set ?fs then None else deref w x)"
        and q1: "\<forall>i. sessions_of w1 i = filter (\<lambda>x. x \<notin> set ?fs) (sessions_of w i)"
        and c1: "conflicted_calls (trace w1) = conflicted_calls (trace w) @ [(p, arm)]"
        by (auto simp: call_conflicted_def)
      have step: "arp_conflicts (Suc n) arm cur w = arp_conflicts n arm ?nx w1"
        using Some s nx cb m call by (auto simp: Let_def)
      have sp: "spares_successor n arm ?nx w1"
        using Suc.prems(3) Some s nx cb m call by (auto simp: Let_def)
      have yes: "matches w arm p \<and> has_conflicted_cb w p"
        using s cb m by (auto simp: matches_def has_conflicted_cb_def)
      have fo: "frees_of w p = ?fs"
        using s cb by (simp add: frees_of_def)
      have todo1: "from_cur (sessions_of w1 ifp) ?nx = filter (\<lambda>x. x \<notin> set ?fs) post"
      proof (cases ?nx)
        case None
        then have "post = []" by (cases post) (simp_all add: TAILQ_FIRST_def)
        with None show ?thesis by (simp add: from_cur_def)
      next
        case (Some q)
        with fs(3) have "q \<notin> set ?fs" by auto
        then show ?thesis
          using Some todo' q1
          by (simp add: from_cur_def dropWhile_neq_filter [of "\<lambda>x. x \<notin> set ?fs"])
      qed
      have inv1: "\<forall>q. ?nx = Some q \<longrightarrow> q \<in> set (sessions_of w1 ifp)"
        using nx_post post_sub fs(3) q1 by auto
      have len1: "length (from_cur (sessions_of w1 ifp) ?nx) < n"
        using len le_less_trans [OF length_filter_le [of "\<lambda>x. x \<notin> set ?fs" post]]
        by (simp add: todo1)
      from Suc.IH [OF wf1 inv1 sp len1] obtain w' where
        run: "arp_conflicts n arm ?nx w1 = Inr w'" and
        c': "conflicted_calls (trace w') = conflicted_calls (trace w1) @
               map (\<lambda>p. (p, arm)) (notified w1 arm [] (filter (\<lambda>x. x \<notin> set ?fs) post))"
        by (auto simp: todo1)
      have "notified w1 arm [] (filter (\<lambda>x. x \<notin> set ?fs) post) = notified w arm (?fs @ []) post"
        by (rule notified_filter) (simp_all add: d1)
      with c' c1 yes run step todo fo show ?thesis by simp
    qed
  qed
qed

subsection \<open>Dispatching a message\<close>

lemmas eval_defs = ex_dispatch_def ex_defs wf_world_def sessions_of_def get_iface_def deref_def
  matches_def has_conflicted_cb_def frees_at_most_itself_def
  arp_packet_def arp_packet_decode_def arp_packet_copy_def memcpy_into_def rd_def
  sizeof_arphdr_def zero_addr_def TAILQ_FIRST_def TAILQ_NEXT_def call_conflicted_def
  arp_free_def arp_close_def set_if_data_def free_def emit_def eloop_timeout_delete_def
  eloop_event_delete_def bpf_close_def bpf_arp_def Let_def

lemmas eval2_defs = eval_defs callbacks_spare_successor_def frees_of_def live_def list_all_iff

lemma arp_packet_dispatch:
  assumes "snd (arp_packet_decode w arm0 data) = Inr (Some arm)"
    and "get_iface w ifp = Some ifc" and "if_data_arp ifc = Some st"
  shows "arp_packet arm0 ifp data w =
           arp_conflicts (Suc (length (sessions_of w ifp))) arm
             (TAILQ_FIRST (sessions_of w ifp)) w"
  using assms by (simp add: arp_packet_def sessions_of_def)




text \<open>
  C4, as amended. In a well-formed state, for a frame that decodes to the message \<open>arm\<close>
  and an interface with a context: when every conflicted callback that the dispatch
  calls frees only sessions that are still allocated, none of them twice, and not the
  session the loop has saved as its next element, \<^verbatim>\<open>arp_packet\<close> completes. The callbacks
  it has called are then, in queue order and once each, those of the sessions that
  match, have a callback and have not been freed by a callback called before their
  turn; the queue is what it was, less the sessions freed; and every matching session
  with a callback that is still in the queue has been called.
\<close>

theorem arp_packet_tolerates_frees:
  assumes wf: "wf_world w"
    and msg: "snd (arp_packet_decode w arm0 data) = Inr (Some arm)"
    and ctx: "get_iface w ifp = Some ifc" "if_data_arp ifc = Some st"
    and spares: "callbacks_spare_successor w ifp arm"
  shows "\<exists>w'. arp_packet arm0 ifp data w = Inr w' \<and>
           conflicted_calls (trace w') = conflicted_calls (trace w) @
             map (\<lambda>p. (p, arm)) (notified w arm [] (sessions_of w ifp)) \<and>
           distinct (notified w arm [] (sessions_of w ifp)) \<and>
           sessions_of w' ifp = filter (live w') (sessions_of w ifp) \<and>
           (\<forall>q\<in>set (sessions_of w' ifp).
               matches w arm q \<and> has_conflicted_cb w q \<longrightarrow>
               q \<in> set (notified w arm [] (sessions_of w ifp)))"
proof -
  let ?q = "sessions_of w ifp"
  let ?run = "arp_conflicts (Suc (length ?q)) arm (TAILQ_FIRST ?q) w"
  have first: "\<forall>p. TAILQ_FIRST ?q = Some p \<longrightarrow> p \<in> set ?q"
    by (simp add: TAILQ_FIRST_in)
  have sp: "spares_successor (Suc (length ?q)) arm (TAILQ_FIRST ?q) w"
    using spares unfolding callbacks_spare_successor_def .
  have len: "length (from_cur ?q (TAILQ_FIRST ?q)) < Suc (length ?q)"
    by (simp add: from_cur_first)
  from arp_conflicts_spared [OF wf first sp len]
  obtain w' where run: "?run = Inr w'"
    and calls: "conflicted_calls (trace w') = conflicted_calls (trace w) @
                  map (\<lambda>p. (p, arm)) (notified w arm [] ?q)"
    unfolding from_cur_first by blast
  have inv: "\<forall>p. TAILQ_FIRST ?q = Some p \<longrightarrow> live w p \<longrightarrow> p \<in> set ?q"
    by (simp add: TAILQ_FIRST_in)
  from arp_conflicts_sound [OF wf run inv] obtain ps where
    sh: "shrinks w w'" and ps: "dispatched w arm ?q w' (sessions_of w' ifp) ps"
    by (auto simp: from_cur_first)
  from ps calls have "map (\<lambda>p. (p, arm)) ps = map (\<lambda>p. (p, arm)) (notified w arm [] ?q)"
    by (simp add: dispatched_def)
  moreover have "inj (\<lambda>p::ptr. (p, arm))"
    by (simp add: inj_on_def)
  ultimately have eq: "ps = notified w arm [] ?q"
    by (simp add: inj_map_eq_map)
  have "set (sessions_of w' ifp) \<subseteq> set ?q" "sessions_of w' ifp = filter (live w') ?q"
    using sh by (auto simp: shrinks_def)
  moreover have "distinct (notified w arm [] ?q)"
    "\<forall>x\<in>set (sessions_of w' ifp). x \<in> set ?q \<longrightarrow> matches w arm x \<longrightarrow>
       has_conflicted_cb w x \<longrightarrow> x \<in> set (notified w arm [] ?q)"
    using ps unfolding dispatched_def eq by blast+
  moreover have "arp_packet arm0 ifp data w = Inr w'"
    using run by (simp only: arp_packet_dispatch [OF msg ctx])
  ultimately show ?thesis
    using calls by (intro exI [of _ w']) blast
qed

theorem arp_packet_tolerates_frees_witness:
  "(let w = ex_dispatch [(ex_addr_a, [2, 0]), (ex_addr_b, []), (ex_addr_b, []), (ex_addr_a, [])]
              [0, 1, 2, 3];
        m = ex_msg ex_addr_a ex_addr_b
    in wf_world w \<and>
       snd (arp_packet_decode w ex_arm0 (ex_frame ex_addr_a ex_addr_b)) = Inr (Some m) \<and>
       sessions_of w 0 = [0, 1, 2, 3] \<and>
       callbacks_spare_successor w 0 m \<and>
       filter (\<lambda>p. matches w m p \<and> has_conflicted_cb w p) [0, 1, 2, 3] = [0, 1, 2, 3] \<and>
       notified w m [] [0, 1, 2, 3] = [0, 1, 3] \<and>
       (\<exists>w'. arp_packet ex_arm0 0 (ex_frame ex_addr_a ex_addr_b) w = Inr w' \<and>
             conflicted_calls (trace w') = [(0, m), (1, m), (3, m)] \<and>
             sessions_of w' 0 = [1, 3]))"
proof -
  let ?w = "ex_dispatch [(ex_addr_a, [2, 0]), (ex_addr_b, []), (ex_addr_b, []), (ex_addr_a, [])]
              [0, 1, 2, 3]"
  let ?m = "ex_msg ex_addr_a ex_addr_b"
  let ?ctx = "\<lparr>fd = 3, arp_states = [0, 1, 2, 3]\<rparr>"
  have h: "wf_world ?w"
    "snd (arp_packet_decode ?w ex_arm0 (ex_frame ex_addr_a ex_addr_b)) = Inr (Some ?m)"
    "get_iface ?w 0 = Some (ex_iface (Some ?ctx))"
    "if_data_arp (ex_iface (Some ?ctx)) = Some ?ctx"
    by (simp_all add: eval_defs upt_rec flip: replicate_add)
  have sp: "callbacks_spare_successor ?w 0 ?m"
    by (simp add: eval2_defs)
  have f: "sessions_of ?w 0 = [0, 1, 2, 3]"
    "filter (\<lambda>p. matches ?w ?m p \<and> has_conflicted_cb ?w p) [0, 1, 2, 3] = [0, 1, 2, 3]"
    "notified ?w ?m [] [0, 1, 2, 3] = [0, 1, 3]"
    "conflicted_calls (trace ?w) = []"
    by (simp_all add: eval2_defs)
  have l: "filter (live w') [0, 1, 2, 3] = [1, 3]"
    if "arp_packet ex_arm0 0 (ex_frame ex_addr_a ex_addr_b) ?w = Inr w'" for w'
    using that by (auto simp: eval2_defs simp flip: replicate_add)
  from arp_packet_tolerates_frees [OF h sp] obtain w' where
    "arp_packet ex_arm0 0 (ex_frame ex_addr_a ex_addr_b) ?w = Inr w'"
    "conflicted_calls (trace w') = [(0, ?m), (1, ?m), (3, ?m)]"
    "sessions_of w' 0 = filter (live w') [0, 1, 2, 3]"
    unfolding f by auto
  with l [of w'] h(1,2) sp f show ?thesis
    unfolding Let_def by (intro conjI exI [of _ w']) simp_all
qed

text \<open>
  The claim as stated fails when a callback frees the session that follows its own in
  the queue: session 0 matches and its callback frees session 1; the loop then reads
  session 1 through the pointer it had saved, and the matching session 2 is never
  reached.
\<close>

theorem arp_packet_callback_frees_successor:
  "(let w = ex_dispatch [(ex_addr_a, [1]), (ex_addr_c, []), (ex_addr_b, [])] [0, 1, 2];
        m = ex_msg ex_addr_a ex_addr_b
    in wf_world w \<and>
       snd (arp_packet_decode w ex_arm0 (ex_frame ex_addr_a ex_addr_b)) = Inr (Some m) \<and>
       sessions_of w 0 = [0, 1, 2] \<and>
       map_option conflicted_cb (deref w 0) = Some (Some (Conflicted_fn [1])) \<and>
       matches w m 2 \<and> has_conflicted_cb w 2 \<and>
       arp_packet ex_arm0 0 (ex_frame ex_addr_a ex_addr_b) w = Inl UseAfterFree)"
  by (simp add: eval_defs upt_rec flip: replicate_add)

end
